theory Spec2Isabelle
  imports Main
begin


section \<open>JavaScript values and strings\<close>

text \<open>
  Strings of the script are modelled as \<^typ>\<open>string\<close>. Language codes, dictionary keys
  and template tokens of the script are ASCII, where a character is one UTF-16 code unit
  and \<open>length\<close> is the script's \<open>.length\<close>.

  An exception thrown by the script is a value of \<open>error\<close>; a function that can throw
  returns \<open>error + 'a\<close>, with \<open>Inl\<close> the exception.
\<close>

datatype error = TypeError | SyntaxError | ReferenceError

text \<open>\<open>s.startsWith(sub)\<close> and \<open>s.includes(sub)\<close> (also \<open>s.indexOf(sub) >= 0\<close>).\<close>

fun starts_with :: "string \<Rightarrow> string \<Rightarrow> bool" where
  "starts_with s [] = True"
| "starts_with [] (y # ys) = False"
| "starts_with (x # xs) (y # ys) = (x = y \<and> starts_with xs ys)"

fun str_includes :: "string \<Rightarrow> string \<Rightarrow> bool" where
  "str_includes [] sub = (sub = [])"
| "str_includes (x # xs) sub = (starts_with (x # xs) sub \<or> str_includes xs sub)"

text \<open>\<open>s.split(c)\<close> for a one-character separator: always at least one piece.\<close>

fun split_on :: "char \<Rightarrow> string \<Rightarrow> string list" where
  "split_on c [] = [[]]"
| "split_on c (x # xs) =
     (if x = c then [] # split_on c xs
      else (case split_on c xs of [] \<Rightarrow> [[x]] | s # ss \<Rightarrow> (x # s) # ss))"

text \<open>\<open>pieces.join(c)\<close>.\<close>

fun join_with :: "char \<Rightarrow> string list \<Rightarrow> string" where
  "join_with c [] = []"
| "join_with c [s] = s"
| "join_with c (s # t # ss) = s @ c # join_with c (t # ss)"

section \<open>Locale negotiation\<close>

text \<open>
  \<open>code.split('-').slice(0, -1).join('-')\<close>: the code without its last hyphen-separated
  segment.
\<close>

definition drop_segment :: "string \<Rightarrow> string" where
  "drop_segment code = join_with CHR ''-'' (butlast (split_on CHR ''-'' code))"

lemma split_on_not_Nil: "split_on c s \<noteq> []"
  by (induction s) (auto split: list.splits)

lemma join_with_split_on: "join_with c (split_on c s) = s"
proof (induction s)
  case Nil
  show ?case by simp
next
  case (Cons x xs)
  show ?case
  proof (cases "split_on c xs")
    case Nil
    with split_on_not_Nil show ?thesis by blast
  next
    case (Cons p ps)
    with Cons.IH show ?thesis by (cases ps) auto
  qed
qed

lemma length_join_butlast:
  "join_with c ps \<noteq> [] \<Longrightarrow> length (join_with c (butlast ps)) < length (join_with c ps)"
proof (induction c ps rule: join_with.induct)
  case (1 c)
  then show ?case by simp
next
  case (2 c s)
  then show ?case by simp
next
  case (3 c s t ss)
  show ?case
  proof (cases ss)
    case Nil
    then show ?thesis by simp
  next
    case (Cons u us)
    with 3 show ?thesis by simp
  qed
qed

lemma length_drop_segment: "code \<noteq> [] \<Longrightarrow> length (drop_segment code) < length code"
  using length_join_butlast [of "CHR ''-''" "split_on CHR ''-'' code"]
  by (simp add: drop_segment_def join_with_split_on)

text \<open>
  \<open>#getSubcodes\<close>: the loop pushes the shortened code while the code is non-empty, and the
  last push (the empty string) is sliced off at the end.
\<close>

function getSubcodes_loop :: "string \<Rightarrow> string list \<Rightarrow> string list" where
  "getSubcodes_loop code subcodes =
     (if code \<noteq> [] then getSubcodes_loop (drop_segment code) (subcodes @ [drop_segment code])
      else subcodes)"
  by pat_completeness auto
termination
  by (relation "measure (\<lambda>(code, subcodes). length code)") (auto simp: length_drop_segment)

declare getSubcodes_loop.simps [simp del]

definition getSubcodes :: "string \<Rightarrow> string list" where
  "getSubcodes code = butlast (getSubcodes_loop code [code])"

text \<open>
  One member of a score array: \<open>{ score, have }\<close>. The field \<open>have_code\<close> (the script's
  \<open>have\<close>) is \<open>None\<close> where the script stores \<open>undefined\<close> (\<open>havesubcodes[0]\<close> of an empty array).
\<close>

record score_entry =
  score :: nat
  have_code :: "string option"

text \<open>
  The comparison function of \<open>#doScoreSort\<close>. Reading \<open>.length\<close> of \<open>undefined\<close> throws a
  TypeError.
\<close>

definition compare_scores :: "score_entry \<Rightarrow> score_entry \<Rightarrow> error + int" where
  "compare_scores a b =
     (if score b = score a then
        (case have_code a of
           None \<Rightarrow> Inl TypeError
         | Some ha \<Rightarrow>
             (case have_code b of
                None \<Rightarrow> Inl TypeError
              | Some hb \<Rightarrow> Inr (int (length ha) - int (length hb))))
      else Inr (int (score b) - int (score a)))"

text \<open>
  \<open>Array.from(scores).sort(compare)\<close>. The sort of the language is stable; it is modelled as
  an insertion sort whose comparisons can throw: an element goes in front of the first
  element it does not compare greater than.
\<close>

fun insert_score :: "score_entry \<Rightarrow> score_entry list \<Rightarrow> error + score_entry list" where
  "insert_score x [] = Inr [x]"
| "insert_score x (y # ys) =
     (case compare_scores x y of
        Inl e \<Rightarrow> Inl e
      | Inr c \<Rightarrow>
          if c \<le> 0 then Inr (x # y # ys)
          else (case insert_score x ys of Inl e \<Rightarrow> Inl e | Inr r \<Rightarrow> Inr (y # r)))"

fun doScoreSort :: "score_entry list \<Rightarrow> error + score_entry list" where
  "doScoreSort [] = Inr []"
| "doScoreSort (x # xs) =
     (case doScoreSort xs of Inl e \<Rightarrow> Inl e | Inr r \<Rightarrow> insert_score x r)"

text \<open>\<open>xs.map(f)\<close> for a callback that can throw: the first exception ends the map.\<close>

fun map_throwing :: "('a \<Rightarrow> error + 'b) \<Rightarrow> 'a list \<Rightarrow> error + 'b list" where
  "map_throwing f [] = Inr []"
| "map_throwing f (x # xs) =
     (case f x of
        Inl e \<Rightarrow> Inl e
      | Inr y \<Rightarrow> (case map_throwing f xs of Inl e \<Rightarrow> Inl e | Inr ys \<Rightarrow> Inr (y # ys)))"

text \<open>The innermost callback: one subcode we want against one subcode we have.\<close>

definition subcode_score :: "string \<Rightarrow> string \<Rightarrow> score_entry" where
  "subcode_score subcode havesubcode =
     \<lparr>score = (if str_includes subcode havesubcode then length havesubcode else 0),
      have_code = Some havesubcode\<rparr>"

text \<open>
  The middle callback: one subcode we want against one language we have (its subcode
  array). The score is that of the best subcode, the \<open>have\<close> field is the full code.
\<close>

definition have_score :: "string \<Rightarrow> string list \<Rightarrow> error + score_entry" where
  "have_score subcode havesubcodes =
     (case doScoreSort (map (subcode_score subcode) havesubcodes) of
        Inl e \<Rightarrow> Inl e
      | Inr scores \<Rightarrow>
          Inr \<lparr>score = (case scores of [] \<Rightarrow> 0 | s # _ \<Rightarrow> score s),
               have_code = (case havesubcodes of [] \<Rightarrow> None | h # _ \<Rightarrow> Some h)\<rparr>)"

text \<open>The score set of one subcode we want: \<open>{ subcode, scores }\<close>.\<close>

definition scoreset :: "string list list \<Rightarrow> string \<Rightarrow> error + (string \<times> score_entry list)" where
  "scoreset havecodes subcode =
     (case map_throwing (have_score subcode) havecodes of
        Inl e \<Rightarrow> Inl e
      | Inr entries \<Rightarrow>
          (case doScoreSort entries of Inl e \<Rightarrow> Inl e | Inr scores \<Rightarrow> Inr (subcode, scores)))"

text \<open>
  The outer callback: the match of one wanted code. All score sets are computed, the first
  member of the first one is kept; \<open>scoresets[0]\<close> is \<open>undefined\<close> for the empty code, and
  reading its \<open>scores\<close> throws. With nothing to choose from the match has no score
  (\<open>None\<close>).
\<close>

definition want_match :: "string list list \<Rightarrow> string \<Rightarrow> error + (string \<times> score_entry option)" where
  "want_match havecodes code =
     (case map_throwing (scoreset havecodes) (getSubcodes code) of
        Inl e \<Rightarrow> Inl e
      | Inr scoresets \<Rightarrow>
          (case scoresets of
             [] \<Rightarrow> Inl TypeError
           | (subcode, scores) # _ \<Rightarrow>
               Inr (code, (case scores of [] \<Rightarrow> None | m # _ \<Rightarrow> Some m))))"

text \<open>\<open>matches.filter(match => match.score)\<close>: a missing or zero score is dropped.\<close>

definition scored :: "string \<times> score_entry option \<Rightarrow> bool" where
  "scored m = (case snd m of None \<Rightarrow> False | Some e \<Rightarrow> score e \<noteq> 0)"

text \<open>The default language code: the first key of the built-in dictionary.\<close>

definition langdefault :: string where
  "langdefault = ''en''"

text \<open>
  \<open>#getLanguageMatch(want, have)\<close>. The result is the \<open>have\<close> field of the first scored
  match (\<open>None\<close> for \<open>undefined\<close>), or the default code.
\<close>

definition getLanguageMatch :: "string list \<Rightarrow> string list \<Rightarrow> error + string option" where
  "getLanguageMatch want haves =
     (let havecodes = map getSubcodes haves in
      case map_throwing (want_match havecodes) want of
        Inl e \<Rightarrow> Inl e
      | Inr matches \<Rightarrow>
          (case filter scored matches of
             [] \<Rightarrow> Inr (Some langdefault)
           | (w, m) # _ \<Rightarrow> Inr (case m of None \<Rightarrow> None | Some e \<Rightarrow> have_code e)))"




subsection \<open>The negotiation as the specification words it\<close>







section \<open>Language data and its registration\<close>

text \<open>
  A value of a language table: a string, or anything else (\<open>typeof\<close> is not \<open>'string'\<close>).
  A table is an object, given by its entries in property order with distinct keys, or
  \<open>null\<close>/\<open>undefined\<close>, whose \<open>Object.entries\<close> throws a TypeError.
\<close>

datatype js_value = JString string | JOther

datatype js_table = JNull | JObject "(string \<times> js_value) list"

type_synonym language = "(string \<times> (string \<times> js_value) list) list"

text \<open>
  The static \<open>#language\<close> dictionary as the script declares it, and \<open>#langkeys\<close>, the keys
  of its first table.
\<close>

definition default_language :: language where
  "default_language =
     [(''en'',
        [(''role-description'', JString ''{{role}} drag and drop''),
         (''selection-notes'', JString ''To choose items press Space.''),
         (''empty-notes'', JString ''No items.''),
         (''drop-notes'', JString ''To drop items press Enter.''),
         (''sort-notes'', JString ''Sort by chosen order.''),
         (''sort-number'', JString ''#{{number}}''),
         (''selected-items'', JString ''{{count}} {{items}} checked.''),
         (''dropped-items'', JString ''{{count}} {{items}} dropped.''),
         (''item-single'', JString ''item''),
         (''item-plural'', JString ''items'')]),
      (''it'',
        [(''role-description'', JString ''{{role}} drag and drop''),
         (''selection-notes'', JString ''Per scegliere l elemento premere Barra Spaziatrice.''),
         (''empty-notes'', JString ''Non ci sono definizioni.''),
         (''drop-notes'', JString ''Per rilasciare l elemento selezionato premere Invio''),
         (''sort-notes'', JString ''Riordina scegliendo l ordine''),
         (''sort-number'', JString ''#{{number}}''),
         (''selected-items'', JString ''{{count}} {{items}} selezionate.''),
         (''dropped-items'', JString ''{{count}} {{items}} spostate.''),
         (''item-single'', JString ''elemento''),
         (''item-plural'', JString ''elementi'')])]"

definition langkeys :: "string list" where
  "langkeys =
     [''role-description'', ''selection-notes'', ''empty-notes'', ''drop-notes'', ''sort-notes'',
      ''sort-number'', ''selected-items'', ''dropped-items'', ''item-single'', ''item-plural'']"

text \<open>
  \<open>s.trim()\<close> is empty when every character of \<open>s\<close> is white space; of the code units
  below 256 these are tab, line feed, vertical tab, form feed, carriage return, space and
  no-break space.
\<close>

definition is_space :: "char \<Rightarrow> bool" where
  "is_space c = (of_char c \<in> {9, 10, 11, 12, 13, 32, 160 :: nat})"

definition trims_to_empty :: "string \<Rightarrow> bool" where
  "trims_to_empty s = list_all is_space s"

text \<open>
  \<open>s.toLowerCase()\<close> on the code units below 256: the capital letters are \<open>A\<close> to \<open>Z\<close>
  (65 to 90) and the Latin-1 capitals 192 to 222 other than the multiplication sign 215;
  the small letter is 32 above its capital.
\<close>

definition lower_char :: "char \<Rightarrow> char" where
  "lower_char c =
     (let n = (of_char c :: nat) in
      if (65 \<le> n \<and> n \<le> 90) \<or> (192 \<le> n \<and> n \<le> 222 \<and> n \<noteq> 215) then char_of (n + 32)
      else c)"

definition toLowerCase :: "string \<Rightarrow> string" where
  "toLowerCase s = map lower_char s"

text \<open>
  The property order of an object: the keys that are array indexes (the decimal numeral,
  without leading zeros, of an integer below \<open>2\<^sup>3\<^sup>2 - 1\<close>) come first, in ascending
  numeric order, and the other keys follow in the order of their creation.
\<close>

definition is_digit :: "char \<Rightarrow> bool" where
  "is_digit c = (48 \<le> (of_char c :: nat) \<and> (of_char c :: nat) \<le> 57)"

definition numeral_value :: "string \<Rightarrow> nat" where
  "numeral_value s = foldl (\<lambda>n c. 10 * n + (of_char c - 48)) 0 s"

definition is_index_key :: "string \<Rightarrow> bool" where
  "is_index_key k =
     (k \<noteq> [] \<and> list_all is_digit k \<and> (k = ''0'' \<or> hd k \<noteq> CHR ''0'') \<and>
      length k \<le> 10 \<and> numeral_value k < 4294967295)"

text \<open>
  \<open>obj[key] = value\<close> on an object given by its own entries in property order: an
  existing key keeps its place; a new array index goes in front of the first entry that is
  not a smaller array index; any other new key goes last.
\<close>

fun insert_index :: "string \<Rightarrow> 'v \<Rightarrow> (string \<times> 'v) list \<Rightarrow> (string \<times> 'v) list" where
  "insert_index k v [] = [(k, v)]"
| "insert_index k v (p # ps) =
     (if is_index_key (fst p) \<and> numeral_value (fst p) < numeral_value k
      then p # insert_index k v ps else (k, v) # p # ps)"

fun replace_property :: "string \<Rightarrow> 'v \<Rightarrow> (string \<times> 'v) list \<Rightarrow> (string \<times> 'v) list" where
  "replace_property k v [] = []"
| "replace_property k v (p # ps) =
     (if fst p = k then (k, v) # ps else p # replace_property k v ps)"

definition set_property :: "string \<Rightarrow> 'v \<Rightarrow> (string \<times> 'v) list \<Rightarrow> (string \<times> 'v) list" where
  "set_property k v ps =
     (if k \<in> fst ` set ps then replace_property k v ps
      else if is_index_key k then insert_index k v ps
      else ps @ [(k, v)])"

text \<open>The value test of \<open>i18n\<close>: a string that does not trim to the empty string.\<close>

definition valid_string :: "js_value option \<Rightarrow> bool" where
  "valid_string v = (case v of Some (JString s) \<Rightarrow> \<not> trims_to_empty s | _ \<Rightarrow> False)"

text \<open>
  \<open>strings[key].indexOf(token) < 0\<close>, for a value already known to be a string.
\<close>

definition lacks_token :: "js_value option \<Rightarrow> string \<Rightarrow> bool" where
  "lacks_token v token = (case v of Some (JString s) \<Rightarrow> \<not> str_includes s token | _ \<Rightarrow> False)"

text \<open>The token test of \<open>i18n\<close> for one key: the \<open>switch(true)\<close> in case order.\<close>

definition notoken :: "(string \<times> js_value) list \<Rightarrow> string \<Rightarrow> bool" where
  "notoken strings key =
     (if key = ''role-description'' then lacks_token (map_of strings key) ''{{role}}''
      else if key = ''sort-number'' then lacks_token (map_of strings key) ''{{number}}''
      else if \<not> (key = ''selected-items'' \<or> key = ''dropped-items'') then False
      else lacks_token (map_of strings key) ''{{count}}'' \<or>
           lacks_token (map_of strings key) ''{{items}}'')"

text \<open>
  One iteration of the loop of \<open>i18n\<close>: the checks in the script's order, then the
  assignment to the dictionary under the lower-cased code. An assignment to the key
  \<open>__proto__\<close> runs the inherited setter, which replaces the prototype of the dictionary
  and creates no entry: the entries of the dictionary stay as they are.
\<close>

definition i18n_entry :: "language \<Rightarrow> string \<times> js_table \<Rightarrow> error + language" where
  "i18n_entry lang entry =
     (let code = fst entry in
      if trims_to_empty code then Inl TypeError
      else
        (case snd entry of
           JNull \<Rightarrow> Inl TypeError
         | JObject given \<Rightarrow>
             (let strings = filter (\<lambda>e. fst e \<in> set langkeys) given;
                  keys = map fst strings;
                  missing = filter (\<lambda>expected. expected \<notin> set keys) langkeys
              in
                if missing \<noteq> [] then Inl TypeError
                else
                  (let invalid = filter (\<lambda>key. \<not> valid_string (map_of strings key)) keys in
                   if invalid \<noteq> [] then Inl TypeError
                   else
                     (let notokens = filter (notoken strings) keys in
                      if notokens \<noteq> [] then Inl SyntaxError
                      else if toLowerCase code = ''__proto__'' then Inr lang
                      else Inr (set_property (toLowerCase code) strings lang))))))"

text \<open>
  \<open>i18n(lang)\<close> over the entries of its argument. The result is the exception that ended
  the loop, if any, and the dictionary as the call leaves it: the entries before a
  rejected one stay registered.
\<close>

fun i18n :: "language \<Rightarrow> (string \<times> js_table) list \<Rightarrow> error option \<times> language" where
  "i18n lang [] = (None, lang)"
| "i18n lang (entry # entries) =
     (case i18n_entry lang entry of
        Inl e \<Rightarrow> (Some e, lang)
      | Inr lang' \<Rightarrow> i18n lang' entries)"


section \<open>The document and the state of the instances\<close>

text \<open>
  A drag item, a drop target container and an instance of the class are identified by a
  number: element ids are unique in a document, so the comparisons of the script by id
  (\<open>item.id == ...\<close>) and by reference (\<open>===\<close>) agree.
\<close>

type_synonym item = nat
type_synonym container = nat
type_synonym inst = nat

text \<open>
  The \<open>#selection\<close> dictionary of an instance. The array \<open>dragitems\<close> is in the order the
  items were selected; \<open>nodesort\<close> is the flag for dropping in node order.
\<close>

record selection =
  sel_dragitems :: "item list"
  sel_owner :: "container option"
  sel_droptarget :: "container option"
  sel_nodesort :: bool

text \<open>
  One member of the \<open>#collection\<close> dictionary: the \<open>dragitems\<close> array of a container as the
  instance last read it, whether the container has a sort button (\<open>sorted !== null\<close>), and
  its default \<open>multimode\<close>. The \<open>droptarget\<close> member is the key; \<open>parent\<close> and \<open>label\<close> are
  fixed at construction.
\<close>

record collection_entry =
  coll_dragitems :: "item list"
  coll_sorted :: bool
  coll_multimode :: int

text \<open>
  The target node of an event, as far as the handlers look at it: a drag item (or a node
  inside one), a sort button of a container (or a node inside one), another node inside a
  container, or a node outside every item and container.
\<close>

datatype node = ItemNode item | SortedNode container | ContainerNode container | OtherNode

text \<open>
  The private fields of an instance: \<open>#collection\<close> in insertion order, \<open>#selection\<close>, the
  \<open>#touching\<close> flag, the \<open>#dragenter\<close> node (\<open>None\<close> for \<open>null\<close>), and whether the
  \<open>#observer\<close> is connected.
\<close>

record dragact =
  collection :: "(container \<times> collection_entry) list"
  selection :: selection
  touching :: bool
  dragenter :: "node option"
  observing :: bool

text \<open>
  The world: the instances, the static \<open>#draginstance\<close> reference, and the part of the
  document the selection and the transfer read and write. \<open>dom_items c\<close> is what
  \<open>c.querySelectorAll('[data-drag-act="dragitem"]')\<close> returns, in document order.
  \<open>item_state x a\<close> is the value of attribute \<open>a\<close> of item \<open>x\<close>, for the attribute names used
  as selection state (\<open>state_attr c\<close> is \<open>data-drag-state\<close> of \<open>c\<close>: \<open>aria-checked\<close> or
  \<open>aria-selected\<close>); \<open>aria_disabled x\<close> says that \<open>aria-disabled\<close> of \<open>x\<close> is \<open>'true'\<close>;
  \<open>drag_disabled x\<close> is the remembered \<open>data-drag-disabled\<close> (\<open>None\<close> when absent); an
  empty \<open>item_role\<close> is a missing or empty \<open>role\<close>. The descendant attributes of a
  container hold the id of an item, or no usable id (\<open>None\<close>).

  Not part of the world: CSS classes, description texts, sort numbers, focus, scrolling,
  timers and callbacks. They are written by the script and never read back by the
  selection or the transfer. Where a statement that only writes them dereferences a
  reference that can be \<open>null\<close>, the model keeps the TypeError it throws.

  The insertion parent of a container holds all its drag items (the script supports no
  other layout), so \<open>parent.appendChild(x)\<close> makes \<open>x\<close> the last item of the container.
  The role and the label of a container were checked at construction and are never
  removed by the script.
\<close>

record world =
  instances :: "inst \<Rightarrow> dragact"
  draginstance :: "inst option"
  dom_items :: "container \<Rightarrow> item list"
  state_attr :: "container \<Rightarrow> string"
  item_state :: "item \<Rightarrow> string \<Rightarrow> string option"
  item_role :: "item \<Rightarrow> string"
  aria_disabled :: "item \<Rightarrow> bool"
  drag_disabled :: "item \<Rightarrow> bool option"
  activedescendant :: "container \<Rightarrow> item option"
  lastdescendant :: "container \<Rightarrow> item option"
  drag_valid :: "container \<Rightarrow> string option"
  drag_sorted :: "container \<Rightarrow> bool"
  drag_safari :: "container \<Rightarrow> string option"

text \<open>
  A method of the script changes the world and then returns a value or throws; the world
  at the point of the throw is kept, as the fields of the instance keep it.
\<close>

datatype 'a outcome = Returns 'a | Throws error

type_synonym 'a action = "world \<Rightarrow> 'a outcome \<times> world"

definition and_then :: "unit action \<Rightarrow> unit action \<Rightarrow> unit action" where
  "and_then f g w = (case f w of (Throws e, w') \<Rightarrow> (Throws e, w') | (Returns u, w') \<Rightarrow> g w')"

definition done_with :: "(world \<Rightarrow> world) \<Rightarrow> unit action" where
  "done_with f w = (Returns (), f w)"

text \<open>\<open>xs.forEach(f)\<close>: the first throw ends the loop.\<close>

fun for_each :: "('a \<Rightarrow> unit action) \<Rightarrow> 'a list \<Rightarrow> unit action" where
  "for_each f [] w = (Returns (), w)"
| "for_each f (x # xs) w =
     (case f x w of (Throws e, w') \<Rightarrow> (Throws e, w') | (Returns u, w') \<Rightarrow> for_each f xs w')"

subsection \<open>Access to an instance\<close>

definition sel :: "world \<Rightarrow> inst \<Rightarrow> selection" where
  "sel w i = selection (instances w i)"

definition set_sel :: "inst \<Rightarrow> (selection \<Rightarrow> selection) \<Rightarrow> world \<Rightarrow> world" where
  "set_sel i f w =
     w\<lparr>instances := (instances w)(i := (instances w i)\<lparr>selection := f (selection (instances w i))\<rparr>)\<rparr>"

definition set_observing :: "inst \<Rightarrow> bool \<Rightarrow> world \<Rightarrow> world" where
  "set_observing i b w = w\<lparr>instances := (instances w)(i := (instances w i)\<lparr>observing := b\<rparr>)\<rparr>"

definition set_touching :: "inst \<Rightarrow> bool \<Rightarrow> world \<Rightarrow> world" where
  "set_touching i b w = w\<lparr>instances := (instances w)(i := (instances w i)\<lparr>touching := b\<rparr>)\<rparr>"

definition set_dragenter :: "inst \<Rightarrow> node option \<Rightarrow> world \<Rightarrow> world" where
  "set_dragenter i n w = w\<lparr>instances := (instances w)(i := (instances w i)\<lparr>dragenter := n\<rparr>)\<rparr>"

definition obs :: "world \<Rightarrow> inst \<Rightarrow> bool" where
  "obs w i = observing (instances w i)"

text \<open>The containers of an instance: the keys of \<open>#collection\<close>.\<close>

definition conts :: "world \<Rightarrow> inst \<Rightarrow> container list" where
  "conts w i = map fst (collection (instances w i))"

text \<open>\<open>this.#collection[droptarget.id]\<close>, \<open>None\<close> for \<open>undefined\<close>.\<close>

definition coll :: "world \<Rightarrow> inst \<Rightarrow> container \<Rightarrow> collection_entry option" where
  "coll w i c = map_of (collection (instances w i)) c"

definition set_coll :: "inst \<Rightarrow> container \<Rightarrow> (collection_entry \<Rightarrow> collection_entry) \<Rightarrow> world \<Rightarrow> world" where
  "set_coll i c f w =
     w\<lparr>instances := (instances w)(i := (instances w i)
        \<lparr>collection := map (\<lambda>(k, e). if k = c then (k, f e) else (k, e))
           (collection (instances w i))\<rparr>)\<rparr>"

text \<open>
  \<open>this.#getClosest(dragitem)\<close>: the container of the scope of the instance that holds
  the item in the document, \<open>None\<close> for \<open>null\<close>.
\<close>

definition getClosest :: "world \<Rightarrow> inst \<Rightarrow> item \<Rightarrow> container option" where
  "getClosest w i x = find (\<lambda>c. x \<in> set (dom_items w c)) (conts w i)"


section \<open>The private methods of the selection and the transfer\<close>

subsection \<open>Reading and initialising a container\<close>

text \<open>
  \<open>#getDragitems(droptarget, init)\<close> returns \<open>dom_items\<close>. With \<open>init\<close> it first walks the
  items: an item without a role throws a TypeError, every other item gets the selection
  state attribute of the container set to \<open>'false'\<close>.
\<close>

definition init_dragitem :: "container \<Rightarrow> item \<Rightarrow> unit action" where
  "init_dragitem droptarget dragitem w =
     (if item_role w dragitem = [] then (Throws TypeError, w)
      else (Returns (),
            w\<lparr>item_state := (item_state w)
                 (dragitem := (item_state w dragitem)(state_attr w droptarget \<mapsto> ''false''))\<rparr>))"

definition getDragitems_init :: "container \<Rightarrow> unit action" where
  "getDragitems_init droptarget w = for_each (init_dragitem droptarget) (dom_items w droptarget) w"

text \<open>
  \<open>#getDroptarget(droptarget, setdescendant)\<close>: removes \<open>data-drag-valid\<close>, initialises the
  items, and sets both descendant attributes to \<open>setdescendant || dragitems[0]\<close>, or
  removes \<open>aria-activedescendant\<close> when the container is empty. It returns the items read,
  which are \<open>dom_items\<close> of the world it leaves.
\<close>

definition getDroptarget :: "container \<Rightarrow> item option \<Rightarrow> unit action" where
  "getDroptarget droptarget setdescendant w =
     (case getDragitems_init droptarget (w\<lparr>drag_valid := (drag_valid w)(droptarget := None)\<rparr>) of
        (Throws e, w') \<Rightarrow> (Throws e, w')
      | (Returns u, w') \<Rightarrow>
          (case dom_items w' droptarget of
             [] \<Rightarrow> (Returns (), w'\<lparr>activedescendant := (activedescendant w')(droptarget := None)\<rparr>)
           | first # rest \<Rightarrow>
               (let active = (case setdescendant of None \<Rightarrow> first | Some d \<Rightarrow> d) in
                (Returns (),
                 w'\<lparr>activedescendant := (activedescendant w')(droptarget \<mapsto> active),
                    lastdescendant := (lastdescendant w')(droptarget \<mapsto> active)\<rparr>))))"

text \<open>\<open>#getDefaultMultimode(droptarget, dragitems)\<close>.\<close>

definition getDefaultMultimode :: "world \<Rightarrow> container \<Rightarrow> item list \<Rightarrow> int" where
  "getDefaultMultimode w droptarget dragitems =
     (if state_attr w droptarget = ''aria-checked'' then
        (case dragitems of
           [] \<Rightarrow> - 1
         | first # rest \<Rightarrow> (if item_role w first = ''radio'' then 0 else 1))
      else - 1)"

text \<open>
  The rebuild of one member of \<open>#collection\<close>, as \<open>#doDropThing\<close> and the mutation observer
  do it: \<open>#getDroptarget\<close>, then the \<open>dragitems\<close> and \<open>multimode\<close> members are replaced.
\<close>

definition rebuild :: "inst \<Rightarrow> container \<Rightarrow> item option \<Rightarrow> unit action" where
  "rebuild i droptarget setdescendant w =
     (case getDroptarget droptarget setdescendant w of
        (Throws e, w') \<Rightarrow> (Throws e, w')
      | (Returns u, w') \<Rightarrow>
          (case coll w' i droptarget of
             None \<Rightarrow> (Throws TypeError, w')
           | Some entry \<Rightarrow>
               (Returns (),
                set_coll i droptarget
                  (\<lambda>e. e\<lparr>coll_dragitems := dom_items w' droptarget,
                          coll_multimode :=
                            getDefaultMultimode w' droptarget (dom_items w' droptarget)\<rparr>) w')))"

subsection \<open>The modifier keys\<close>



subsection \<open>The active descendant\<close>


subsection \<open>Selecting and unselecting\<close>

text \<open>
  \<open>#removeSelection(dragitem, droptarget)\<close>. Without a \<open>droptarget\<close> the owner is used, and
  reading its state attribute throws when there is none; so does reading
  \<open>data-drag-sorted\<close> of the closest container of an item that has none. When the last
  item goes, the flag is reset, the observer restarts and \<open>#draginstance\<close> is set to
  \<open>null\<close>.
\<close>

definition removeSelection :: "inst \<Rightarrow> item \<Rightarrow> container option \<Rightarrow> unit action" where
  "removeSelection i dragitem droptarget w =
     (case (case droptarget of None \<Rightarrow> sel_owner (sel w i) | Some c \<Rightarrow> Some c) of
        None \<Rightarrow> (Throws TypeError, w)
      | Some c \<Rightarrow>
          (let w1 = w\<lparr>item_state := (item_state w)
                       (dragitem := (item_state w dragitem)(state_attr w c \<mapsto> ''false''))\<rparr>;
               w2 = set_sel i (\<lambda>s. s\<lparr>sel_dragitems :=
                       filter (\<lambda>item. item \<noteq> dragitem) (sel_dragitems s)\<rparr>) w1
           in
             case getClosest w2 i dragitem of
               None \<Rightarrow> (Throws TypeError, w2)
             | Some owner \<Rightarrow>
                 if sel_dragitems (sel w2 i) = [] then
                   (Returns (),
                    (set_observing i True (set_sel i (\<lambda>s. s\<lparr>sel_nodesort := True\<rparr>) w2))
                      \<lparr>draginstance := None\<rparr>)
                 else (Returns (), w2)))"

text \<open>
  \<open>#clearSelections(droptarget)\<close>: the loop runs over the array as it was at the call
  (every removal replaces the array by a filtered copy).
\<close>

definition clearSelections :: "inst \<Rightarrow> container option \<Rightarrow> unit action" where
  "clearSelections i droptarget w =
     (if sel_dragitems (sel w i) = [] then (Returns (), w)
      else
        and_then
          (for_each (\<lambda>dragitem. removeSelection i dragitem droptarget) (sel_dragitems (sel w i)))
          (done_with (set_sel i (\<lambda>s. s\<lparr>sel_owner := None\<rparr>)))
          w)"

text \<open>
  \<open>#clearDragValid()\<close>: nothing without selected items. Otherwise every container of the
  collection loses \<open>data-drag-valid\<close>, and the items of every container other than the
  owner (of every container, after a drop in selection order) lose \<open>aria-disabled\<close>
  unless \<open>data-drag-disabled\<close> remembered that they had it, and lose the remembering
  attribute.
\<close>

definition restore_disabled :: "item \<Rightarrow> world \<Rightarrow> world" where
  "restore_disabled dragitem w =
     w\<lparr>aria_disabled := (aria_disabled w)(dragitem := (drag_disabled w dragitem = Some True)),
       drag_disabled := (drag_disabled w)(dragitem := None)\<rparr>"

definition clearDragValid_target :: "inst \<Rightarrow> container \<times> collection_entry \<Rightarrow> world \<Rightarrow> world" where
  "clearDragValid_target i member w =
     (let droptarget = fst member;
          w1 = w\<lparr>drag_valid := (drag_valid w)(droptarget := None)\<rparr>
      in
        if Some droptarget \<noteq> sel_owner (sel w1 i) \<or> \<not> sel_nodesort (sel w1 i)
        then fold restore_disabled (coll_dragitems (snd member)) w1
        else w1)"

definition clearDragValid :: "inst \<Rightarrow> world \<Rightarrow> world" where
  "clearDragValid i w =
     (if sel_dragitems (sel w i) = [] then w
      else fold (clearDragValid_target i) (collection (instances w i)) w)"

text \<open>
  \<open>#addDragValid()\<close>: every container of the collection gets \<open>data-drag-valid\<close>; in every
  container other than the owner the items are disabled, remembering once whether they
  were disabled before. For a container with a sort button outside Safari the script reads
  the id of the owner, which throws without an owner.
\<close>

definition disable_dragitem :: "item \<Rightarrow> world \<Rightarrow> world" where
  "disable_dragitem dragitem w =
     w\<lparr>drag_disabled := (drag_disabled w)
          (dragitem := (case drag_disabled w dragitem of
                          None \<Rightarrow> Some (aria_disabled w dragitem)
                        | Some b \<Rightarrow> Some b)),
       aria_disabled := (aria_disabled w)(dragitem := True)\<rparr>"

definition addDragValid_target :: "inst \<Rightarrow> container \<times> collection_entry \<Rightarrow> unit action" where
  "addDragValid_target i member w =
     (let droptarget = fst member;
          w1 = w\<lparr>drag_valid := (drag_valid w)(droptarget \<mapsto> ''false'')\<rparr>
      in
        if coll_sorted (snd member) \<and> drag_safari w1 droptarget = None \<and> sel_owner (sel w1 i) = None
        then (Throws TypeError, w1)
        else if Some droptarget \<noteq> sel_owner (sel w1 i) then
          (Returns (),
           fold disable_dragitem (coll_dragitems (snd member))
             (w1\<lparr>drag_valid := (drag_valid w1)(droptarget \<mapsto> ''true'')\<rparr>))
        else (Returns (), w1))"

definition addDragValid :: "inst \<Rightarrow> unit action" where
  "addDragValid i w = for_each (addDragValid_target i) (collection (instances w i)) w"

text \<open>
  The end of \<open>#addSelection\<close>: when \<open>#draginstance\<close> is another instance, that instance
  clears its drag-valid state, the script reads the class list of its owner (a TypeError
  without an owner) and the collection member of the owner (a TypeError without one),
  and it clears its selections.
\<close>

definition evict :: "inst \<Rightarrow> unit action" where
  "evict i w =
     (case draginstance w of
        None \<Rightarrow> (Returns (), w)
      | Some d \<Rightarrow>
          if d \<noteq> i then
            (let w1 = clearDragValid d w in
             case sel_owner (sel w1 d) of
               None \<Rightarrow> (Throws TypeError, w1)
             | Some owner \<Rightarrow>
                 (case coll w1 d owner of
                    None \<Rightarrow> (Throws TypeError, w1)
                  | Some entry \<Rightarrow> clearSelections d None w1))
          else (Returns (), w))"

text \<open>
  \<open>#addSelection(dragitem, owner)\<close>: nothing for a disabled item and for an item of a
  container other than the owner. Otherwise the item is marked and pushed (in a sortable
  container the selection numbers are then updated from the collection member of the
  container, a TypeError without one), the flag is reset, the observer stops, another
  dragging instance is evicted, and \<open>#draginstance\<close> becomes this instance.
\<close>

definition addSelection :: "inst \<Rightarrow> item \<Rightarrow> container \<Rightarrow> unit action" where
  "addSelection i dragitem owner w =
     (if aria_disabled w dragitem then (Returns (), w)
      else if sel_owner (sel w i) \<noteq> None \<and> sel_owner (sel w i) \<noteq> Some owner then (Returns (), w)
      else
        (let w1 = set_sel i (\<lambda>s. s\<lparr>sel_owner := Some owner\<rparr>) w;
             w2 = w1\<lparr>item_state := (item_state w1)
                       (dragitem := (item_state w1 dragitem)(state_attr w1 owner \<mapsto> ''true''))\<rparr>;
             w3 = set_sel i (\<lambda>s. s\<lparr>sel_dragitems := sel_dragitems s @ [dragitem]\<rparr>) w2;
             w4 = set_sel i (\<lambda>s. s\<lparr>sel_nodesort := True\<rparr>) w3;
             w5 = set_observing i False w4
         in
           if drag_sorted w3 owner \<and> coll w3 i owner = None then (Throws TypeError, w3)
           else
             (case evict i w5 of
                (Throws e, w6) \<Rightarrow> (Throws e, w6)
              | (Returns u, w6) \<Rightarrow> (Returns (), w6\<lparr>draginstance := Some i\<rparr>))))"

text \<open>
  \<open>array.findIndex(p)\<close> and \<open>array[n]\<close> for an integer \<open>n\<close>: \<open>- 1\<close> when nothing is found,
  \<open>None\<close> (\<open>undefined\<close>) outside the array.
\<close>

fun findIndex :: "('a \<Rightarrow> bool) \<Rightarrow> 'a list \<Rightarrow> int" where
  "findIndex p [] = - 1"
| "findIndex p (x # xs) =
     (if p x then 0 else (let n = findIndex p xs in if n < 0 then - 1 else n + 1))"

definition element_at :: "'a list \<Rightarrow> int \<Rightarrow> 'a option" where
  "element_at xs n = (if 0 \<le> n \<and> n < int (length xs) then Some (xs ! nat n) else None)"

text \<open>
  The range of \<open>#addSelectionRange\<close>: the boundary items are looked up by the two
  descendant attributes, their indexes are put in traversal order, the members between
  them are collected (\<open>undefined\<close> where an index is outside the array), and the range is
  reversed when the first boundary comes after the second.
\<close>

definition selection_range :: "world \<Rightarrow> container \<Rightarrow> item list \<Rightarrow> item option list" where
  "selection_range w droptarget dragitems =
     (let range = map (\<lambda>attr. find (\<lambda>item. attr = Some item) dragitems)
                    [lastdescendant w droptarget, activedescendant w droptarget];
          boundaries = map (\<lambda>rangeitem. findIndex (\<lambda>dragitem. rangeitem = Some dragitem) dragitems)
                          range;
          first = min (boundaries ! 0) (boundaries ! 1);
          final = max (boundaries ! 0) (boundaries ! 1);
          members = map (element_at dragitems) [first..final]
      in if boundaries ! 0 > boundaries ! 1 then rev members else members)"

text \<open>
  \<open>#addSelectionRange(droptarget)\<close>: the members of the range are filtered out of the
  selection and then added one by one; adding \<open>undefined\<close> throws a TypeError.
\<close>

definition addSelectionRange :: "inst \<Rightarrow> container \<Rightarrow> unit action" where
  "addSelectionRange i droptarget w =
     (case coll w i droptarget of
        None \<Rightarrow> (Throws TypeError, w)
      | Some entry \<Rightarrow>
          (let range = selection_range w droptarget (coll_dragitems entry);
               w1 = set_sel i (\<lambda>s. s\<lparr>sel_dragitems :=
                      filter (\<lambda>item. Some item \<notin> set range) (sel_dragitems s)\<rparr>) w
           in
             for_each
               (\<lambda>rangeitem w'.
                  case rangeitem of
                    None \<Rightarrow> (Throws TypeError, w')
                  | Some dragitem \<Rightarrow> addSelection i dragitem droptarget w')
               range w1))"

text \<open>
  \<open>#doSelectionThing(droptarget, dragitem, multimode)\<close>: 2 is the contiguous mode, 1 the
  non-contiguous mode, anything else the exclusive mode.
\<close>

definition addDragValid_if_selected :: "inst \<Rightarrow> unit action" where
  "addDragValid_if_selected i w =
     (if sel_dragitems (sel w i) \<noteq> [] then addDragValid i w else (Returns (), w))"

definition doSelectionThing :: "inst \<Rightarrow> container \<Rightarrow> item \<Rightarrow> int \<Rightarrow> unit action" where
  "doSelectionThing i droptarget dragitem multimode w =
     (if multimode = 2 then
        and_then
          (\<lambda>w'. if item_state w' dragitem (state_attr w' droptarget) = Some ''false''
                then addSelection i dragitem droptarget w' else (Returns (), w'))
          (and_then (addSelectionRange i droptarget) (addDragValid_if_selected i))
          w
      else if multimode = 1 then
        (if item_state w dragitem (state_attr w droptarget) = Some ''true'' then
           and_then
             (done_with (\<lambda>w'. if length (sel_dragitems (sel w' i)) = 1
                              then clearDragValid i w' else w'))
             (and_then (removeSelection i dragitem None)
                (done_with (\<lambda>w'. if sel_dragitems (sel w' i) = []
                                 then set_sel i (\<lambda>s. s\<lparr>sel_owner := None\<rparr>) w' else w')))
             w
         else
           and_then (addSelection i dragitem droptarget) (addDragValid_if_selected i) w)
      else
        (let single = (length (sel_dragitems (sel w i)) = 1 \<and> dragitem \<in> set (sel_dragitems (sel w i)))
         in
           and_then (done_with (clearDragValid i))
             (and_then (clearSelections i None)
                (if \<not> single
                 then and_then (addSelection i dragitem droptarget) (addDragValid_if_selected i)
                 else done_with (\<lambda>w'. w')))
             w))"

subsection \<open>The drop\<close>

text \<open>
  \<open>parent.appendChild(x)\<close> for the insertion parent of a container: the item leaves the
  container it is in and becomes the last item of the container.
\<close>

definition appendChild :: "container \<Rightarrow> item \<Rightarrow> world \<Rightarrow> world" where
  "appendChild droptarget x w =
     w\<lparr>dom_items := (\<lambda>c. if c = droptarget
                           then filter (\<lambda>y. y \<noteq> x) (dom_items w c) @ [x]
                           else filter (\<lambda>y. y \<noteq> x) (dom_items w c))\<rparr>"

text \<open>
  The removal of the selection state attribute of the owner from the selected items
  before they move: reading the attribute name throws without an owner.
\<close>

definition remove_state :: "inst \<Rightarrow> item \<Rightarrow> unit action" where
  "remove_state i dragitem w =
     (case sel_owner (sel w i) of
        None \<Rightarrow> (Throws TypeError, w)
      | Some owner \<Rightarrow>
          (Returns (),
           w\<lparr>item_state := (item_state w)
                (dragitem := (item_state w dragitem)(state_attr w owner := None))\<rparr>))"

text \<open>
  The insertions of \<open>#doDropThing\<close>: in node order the \<open>dragitems\<close> array of the owner in
  the collection is walked and every item found in the selection is appended; otherwise
  the selection array is walked.
\<close>

definition move_items :: "inst \<Rightarrow> container \<Rightarrow> unit action" where
  "move_items i droptarget w =
     (if sel_nodesort (sel w i) then
        (case sel_owner (sel w i) of
           None \<Rightarrow> (Throws TypeError, w)
         | Some owner \<Rightarrow>
             (case coll w i owner of
                None \<Rightarrow> (Throws TypeError, w)
              | Some entry \<Rightarrow>
                  (case coll w i droptarget of
                     None \<Rightarrow>
                       (if filter (\<lambda>item. item \<in> set (sel_dragitems (sel w i)))
                             (coll_dragitems entry) = []
                        then (Returns (), w) else (Throws TypeError, w))
                   | Some target \<Rightarrow>
                       (Returns (),
                        fold (appendChild droptarget)
                          (filter (\<lambda>item. item \<in> set (sel_dragitems (sel w i)))
                             (coll_dragitems entry)) w))))
      else
        (case coll w i droptarget of
           None \<Rightarrow> (if sel_dragitems (sel w i) = [] then (Returns (), w) else (Throws TypeError, w))
         | Some target \<Rightarrow> (Returns (), fold (appendChild droptarget) (sel_dragitems (sel w i)) w)))"

text \<open>
  The rebuild of the owner and of the drop target after the insertions. The active
  descendant is set to the last item of the container for the drop target, and for the
  owner only when it is the drop target; without an owner the first rebuild throws.
\<close>

definition rebuild_after_drop :: "inst \<Rightarrow> container option \<Rightarrow> unit action" where
  "rebuild_after_drop i droptarget w =
     (case droptarget of
        None \<Rightarrow> (Throws TypeError, w)
      | Some c \<Rightarrow>
          (let setdescendant =
                 (if sel_droptarget (sel w i) = sel_owner (sel w i) \<or> Some c \<noteq> sel_owner (sel w i)
                  then (case dom_items w c of [] \<Rightarrow> None | x # xs \<Rightarrow> Some (last (x # xs)))
                  else None)
           in rebuild i c setdescendant w))"

text \<open>
  \<open>#doDropThing()\<close>: \<open>false\<close> without a drop target; otherwise the items move, both
  containers are rebuilt, the drag-valid state and the selection are cleared, the drop
  target reference is reset and the result is \<open>true\<close>.
\<close>

definition doDropThing :: "inst \<Rightarrow> bool action" where
  "doDropThing i w =
     (case sel_droptarget (sel w i) of
        None \<Rightarrow> (Returns False, w)
      | Some droptarget \<Rightarrow>
          (case
             and_then (for_each (remove_state i) (sel_dragitems (sel w i)))
               (and_then (move_items i droptarget)
                  (and_then
                     (\<lambda>w'. for_each (rebuild_after_drop i)
                              [sel_owner (sel w' i), sel_droptarget (sel w' i)] w')
                     (and_then (done_with (clearDragValid i))
                        (and_then (\<lambda>w'. clearSelections i (sel_droptarget (sel w' i)) w')
                           (done_with (set_sel i (\<lambda>s. s\<lparr>sel_droptarget := None\<rparr>)))))))
               w
           of
             (Throws e, w') \<Rightarrow> (Throws e, w')
           | (Returns u, w') \<Rightarrow> (Returns True, w')))"


section \<open>The event handlers\<close>





text \<open>
  What the handlers read of a mouse, drag or keyboard event besides its target: the
  modifier keys, and for a key event the key (one of the names the script responds to,
  other than Escape) and the repeat flag.
\<close>

datatype keyname =
  Space | KeyX | KeyA | Enter | KeyV | KeyS |
  ArrowUp | ArrowRight | ArrowDown | ArrowLeft | PageUp | PageDown | Home | End




















section \<open>The reachable worlds\<close>

text \<open>
  The document is a tree: the items of a container are distinct, and no item is in two
  containers.
\<close>

definition dom_ok :: "world \<Rightarrow> bool" where
  "dom_ok w =
     ((\<forall>c. distinct (dom_items w c)) \<and>
      (\<forall>c c'. c \<noteq> c' \<longrightarrow> set (dom_items w c) \<inter> set (dom_items w c') = {}))"

text \<open>
  The collections agree with the document: the keys of a collection are distinct, its
  \<open>dragitems\<close> arrays are the items of the containers, every item has a role, and no
  container belongs to two instances.
\<close>

definition colls_ok :: "world \<Rightarrow> bool" where
  "colls_ok w =
     (\<forall>i. distinct (conts w i) \<and>
          (\<forall>c\<in>set (conts w i).
              (\<exists>e. coll w i c = Some e \<and> coll_dragitems e = dom_items w c) \<and>
              (\<forall>x\<in>set (dom_items w c). item_role w x \<noteq> [])) \<and>
          (\<forall>j. j \<noteq> i \<longrightarrow> set (conts w i) \<inter> set (conts w j) = {}))"

text \<open>
  The descendant attributes of a container with items name items of the container.
\<close>

definition descendants_ok :: "world \<Rightarrow> bool" where
  "descendants_ok w =
     (\<forall>i. \<forall>c\<in>set (conts w i). dom_items w c \<noteq> [] \<longrightarrow>
        (\<exists>a. activedescendant w c = Some a \<and> a \<in> set (dom_items w c)) \<and>
        (\<exists>l. lastdescendant w c = Some l \<and> l \<in> set (dom_items w c)))"

text \<open>
  The selection of an instance: there are selected items exactly when there is an owner;
  the owner is a container of the instance and holds the selected items, which are
  distinct, marked as selected and not disabled; a drop target is a container of the
  instance; with selected items the sorting flag is set, the observer is disconnected and
  the instance is the dragging instance.
\<close>

definition selection_ok :: "world \<Rightarrow> inst \<Rightarrow> bool" where
  "selection_ok w i =
     ((sel_dragitems (sel w i) = [] \<longleftrightarrow> sel_owner (sel w i) = None) \<and>
      (\<forall>owner. sel_owner (sel w i) = Some owner \<longrightarrow>
         owner \<in> set (conts w i) \<and>
         (\<forall>x\<in>set (sel_dragitems (sel w i)).
            x \<in> set (dom_items w owner) \<and>
            item_state w x (state_attr w owner) = Some ''true'' \<and>
            \<not> aria_disabled w x)) \<and>
      distinct (sel_dragitems (sel w i)) \<and>
      (\<forall>t. sel_droptarget (sel w i) = Some t \<longrightarrow> t \<in> set (conts w i)) \<and>
      (sel_dragitems (sel w i) \<noteq> [] \<longrightarrow>
         sel_nodesort (sel w i) \<and> \<not> obs w i \<and> draginstance w = Some i))"

text \<open>The dragging instance has selected items.\<close>

definition arbiter_ok :: "world \<Rightarrow> bool" where
  "arbiter_ok w = (\<forall>d. draginstance w = Some d \<longrightarrow> sel_dragitems (sel w d) \<noteq> [])"

definition inv :: "world \<Rightarrow> bool" where
  "inv w = (dom_ok w \<and> colls_ok w \<and> descendants_ok w \<and> (\<forall>i. selection_ok w i) \<and> arbiter_ok w)"

text \<open>
  The worlds the constructors leave: nothing is selected anywhere, no instance is
  dragging, every observer is connected, the collections were read from the document, and
  the descendant attributes of a container with items name its first item.
\<close>

definition constructed :: "world \<Rightarrow> bool" where
  "constructed w =
     (dom_ok w \<and> colls_ok w \<and> draginstance w = None \<and>
      (\<forall>i. sel w i = \<lparr>sel_dragitems = [], sel_owner = None, sel_droptarget = None,
                       sel_nodesort = True\<rparr> \<and>
           obs w i \<and>
           (\<forall>c\<in>set (conts w i). \<forall>first rest. dom_items w c = first # rest \<longrightarrow>
              activedescendant w c = Some first \<and> lastdescendant w c = Some first)))"




section \<open>What a method leaves alone\<close>

text \<open>
  Two worlds with the same document structure: the same items in the containers, the
  same roles and attribute names, the same descendant attributes, and the same
  collections, touching flags and \<open>#dragenter\<close> nodes in every instance. The methods that
  select and unselect keep the world in this relation.
\<close>

definition same_document :: "world \<Rightarrow> world \<Rightarrow> bool" where
  "same_document w w' =
     (dom_items w' = dom_items w \<and> state_attr w' = state_attr w \<and> item_role w' = item_role w \<and>
      activedescendant w' = activedescendant w \<and> lastdescendant w' = lastdescendant w \<and>
      drag_sorted w' = drag_sorted w \<and> drag_safari w' = drag_safari w \<and>
      (\<forall>i. collection (instances w' i) = collection (instances w i)) \<and>
      (\<forall>i. touching (instances w' i) = touching (instances w i)) \<and>
      (\<forall>i. dragenter (instances w' i) = dragenter (instances w i)))"

text \<open>
  Two worlds that differ at most in the disabled state of the items and the drag-valid
  marks of the containers.
\<close>

definition same_selections :: "world \<Rightarrow> world \<Rightarrow> bool" where
  "same_selections w w' =
     (same_document w w' \<and> instances w' = instances w \<and> draginstance w' = draginstance w \<and>
      item_state w' = item_state w)"

text \<open>
  The items of the containers of an instance other than its owner: the items that
  \<open>#addDragValid\<close> disables and \<open>#clearDragValid\<close> restores while the sorting flag is set.
\<close>

definition target_items :: "world \<Rightarrow> inst \<Rightarrow> item set" where
  "target_items w i =
     (\<Union>member\<in>set (collection (instances w i)).
        if Some (fst member) \<noteq> sel_owner (sel w i) then set (coll_dragitems (snd member)) else {})"

text \<open>All items of the containers of an instance, as its collection has them.\<close>

definition collected_items :: "world \<Rightarrow> inst \<Rightarrow> item set" where
  "collected_items w i =
     (\<Union>member\<in>set (collection (instances w i)). set (coll_dragitems (snd member)))"

section \<open>The invariant inside a handler\<close>

text \<open>
  While an instance adds items one by one, the invariant holds for everything but its
  own selection: the document, the collections, the descendant attributes, the selections
  of the other instances, and the dragging instance if it is another one.
\<close>

definition others_ok :: "world \<Rightarrow> inst \<Rightarrow> bool" where
  "others_ok w i =
     (dom_ok w \<and> colls_ok w \<and> descendants_ok w \<and> (\<forall>j. j \<noteq> i \<longrightarrow> selection_ok w j) \<and>
      (\<forall>d. draginstance w = Some d \<longrightarrow> d \<noteq> i \<longrightarrow> sel_dragitems (sel w d) \<noteq> []))"

text \<open>
  The selection of an instance while it adds items of the container \<open>c\<close>: as in the
  invariant, but the owner may already (or still) be \<open>c\<close> while no item is selected.
\<close>

definition adding_ok :: "world \<Rightarrow> inst \<Rightarrow> container \<Rightarrow> bool" where
  "adding_ok w i c =
     (c \<in> set (conts w i) \<and>
      (sel_owner (sel w i) = None \<or> sel_owner (sel w i) = Some c) \<and>
      distinct (sel_dragitems (sel w i)) \<and>
      (\<forall>x\<in>set (sel_dragitems (sel w i)).
         x \<in> set (dom_items w c) \<and> item_state w x (state_attr w c) = Some ''true'' \<and>
         \<not> aria_disabled w x) \<and>
      (\<forall>t. sel_droptarget (sel w i) = Some t \<longrightarrow> t \<in> set (conts w i)) \<and>
      (sel_dragitems (sel w i) \<noteq> [] \<longrightarrow>
         sel_owner (sel w i) = Some c \<and> sel_nodesort (sel w i) \<and> \<not> obs w i \<and>
         draginstance w = Some i))"

text \<open>
  The invariant but for the sorting flag of an instance, which the handlers of a drop set
  before they call \<open>#doDropThing\<close>.
\<close>

definition inv_but_flag :: "world \<Rightarrow> inst \<Rightarrow> bool" where
  "inv_but_flag w i = inv (set_sel i (\<lambda>s. s\<lparr>sel_nodesort := True\<rparr>) w)"

text \<open>
  Two worlds with the same items, roles, attribute names, dragging instance, selections,
  observers and containers: what a rebuild of a container keeps.
\<close>

definition kept :: "world \<Rightarrow> world \<Rightarrow> bool" where
  "kept w w' =
     (dom_items w' = dom_items w \<and> state_attr w' = state_attr w \<and> item_role w' = item_role w \<and>
      drag_sorted w' = drag_sorted w \<and> drag_safari w' = drag_safari w \<and>
      draginstance w' = draginstance w \<and>
      (\<forall>j. sel w' j = sel w j \<and> obs w' j = obs w j \<and> conts w' j = conts w j))"

section \<open>Example worlds\<close>

text \<open>
  A page with two instances as their constructors leave them. Instance 0 has the
  containers 1, with the items 10 to 13, and 2, with the items 20 to 22; instance 1 has the
  container 3 with the item 30. The items are options of multi-selectable list boxes.
\<close>

definition example_instance :: "inst \<Rightarrow> dragact" where
  "example_instance i =
     \<lparr>collection =
        (if i = 0 then
           [(1, \<lparr>coll_dragitems = [10, 11, 12, 13], coll_sorted = False, coll_multimode = 1\<rparr>),
            (2, \<lparr>coll_dragitems = [20, 21, 22], coll_sorted = False, coll_multimode = 1\<rparr>)]
         else if i = 1 then
           [(3, \<lparr>coll_dragitems = [30], coll_sorted = False, coll_multimode = 1\<rparr>)]
         else []),
      selection = \<lparr>sel_dragitems = [], sel_owner = None, sel_droptarget = None,
                    sel_nodesort = True\<rparr>,
      touching = False, dragenter = None, observing = True\<rparr>"

definition example_items :: "container \<Rightarrow> item list" where
  "example_items c =
     (if c = 1 then [10, 11, 12, 13] else if c = 2 then [20, 21, 22]
      else if c = 3 then [30] else [])"

definition example_world :: world where
  "example_world =
     \<lparr>instances = example_instance,
      draginstance = None,
      dom_items = example_items,
      state_attr = (\<lambda>c. ''aria-selected''),
      item_state = (\<lambda>x. [''aria-selected'' \<mapsto> ''false'']),
      item_role = (\<lambda>x. ''option''),
      aria_disabled = (\<lambda>x. False),
      drag_disabled = (\<lambda>x. None),
      activedescendant = (\<lambda>c. case example_items c of [] \<Rightarrow> None | x # xs \<Rightarrow> Some x),
      lastdescendant = (\<lambda>c. case example_items c of [] \<Rightarrow> None | x # xs \<Rightarrow> Some x),
      drag_valid = (\<lambda>c. None),
      drag_sorted = (\<lambda>c. False),
      drag_safari = (\<lambda>c. None)\<rparr>"

text \<open>The same page with the item 13 disabled by the host.\<close>

definition disabled_world :: world where
  "disabled_world = example_world\<lparr>aria_disabled := (\<lambda>x. x = 13)\<rparr>"

text \<open>
  The worlds after an exclusive selection action of instance 0 on the item 11 of the
  container 1.
\<close>

definition selected_world :: world where
  "selected_world = snd (doSelectionThing 0 1 11 0 example_world)"

definition selected_disabled_world :: world where
  "selected_disabled_world = snd (doSelectionThing 0 1 11 0 disabled_world)"



text \<open>The world after instance 1 has selected its item 30.\<close>

definition held_world :: world where
  "held_world = snd (doSelectionThing 1 3 30 0 example_world)"


text \<open>
  The world after instance 0 has selected, one by one, the items 22 and 20 of the
  container 2; the same world with the container 1 as the pending drop target, in node
  order and in selection order.
\<close>

definition picked_world :: world where
  "picked_world = snd (doSelectionThing 0 2 20 1 (snd (doSelectionThing 0 2 22 1 example_world)))"

definition node_drop_world :: world where
  "node_drop_world = set_sel 0 (\<lambda>s. s\<lparr>sel_droptarget := Some 1\<rparr>) picked_world"

definition selection_drop_world :: world where
  "selection_drop_world =
     set_sel 0 (\<lambda>s. s\<lparr>sel_droptarget := Some 1\<rparr>)
       (set_sel 0 (\<lambda>s. s\<lparr>sel_nodesort := False\<rparr>) picked_world)"


section \<open>Properties of the locale negotiation\<close>
















subsection \<open>The subcodes of the script and of the specification\<close>

















subsection \<open>The scores of the script and of the specification\<close>












text \<open>
  Claim C1, as amended. Wanting \<open>en-gb-cockney\<close> with \<open>en-us-fake-cockney\<close> and \<open>en\<close>
  available, the negotiation returns \<open>en\<close>, whatever the order of the available codes: both
  score 2 (the length of the shared subcode \<open>en\<close>), and of two equal scores the sort puts
  the shorter code first. \<open>en-us-fake-cockney\<close> is returned when \<open>en\<close> is not available.
\<close>

theorem negotiate_cockney_returns_base:
  "getLanguageMatch [''en-gb-cockney''] [''en-us-fake-cockney'', ''en''] = Inr (Some ''en'') \<and>
   getLanguageMatch [''en-gb-cockney''] [''en'', ''en-us-fake-cockney''] = Inr (Some ''en'') \<and>
   getLanguageMatch [''en-gb-cockney''] [''en-us-fake-cockney''] = Inr (Some ''en-us-fake-cockney'')"
  by code_simp

text \<open>
  Claim C1 as stated fails: the result for the available codes \<open>en-us-fake-cockney\<close> and
  \<open>en\<close> is not \<open>en-us-fake-cockney\<close>.
\<close>

theorem negotiate_cockney_counterexample:
  "getLanguageMatch [''en-gb-cockney''] [''en-us-fake-cockney'', ''en'']
     \<noteq> Inr (Some ''en-us-fake-cockney'') \<and>
   getLanguageMatch [''en-gb-cockney''] [''en'', ''en-us-fake-cockney'']
     \<noteq> Inr (Some ''en-us-fake-cockney'')"
  by code_simp

section \<open>Properties of the registration of language data\<close>

lemma map_of_filter_key:
  "map_of (filter (\<lambda>e. P (fst e)) xs) k = (if P k then map_of xs k else None)"
  by (induction xs) auto

lemma lacks_token_key:
  "lacks_token (map_of given k) token \<Longrightarrow> k \<in> fst ` set given"
  by (auto simp: lacks_token_def split: option.splits dest!: map_of_SomeD intro: rev_image_eqI)

lemma i18n_entry_missing_key:
  assumes "k \<in> set langkeys" "k \<notin> fst ` set given"
  shows "i18n_entry lang (code, JObject given) = Inl TypeError"
proof -
  from assms have "k \<in> set (filter (\<lambda>expected. expected \<notin> set (map fst
      (filter (\<lambda>e. fst e \<in> set langkeys) given))) langkeys)"
    by auto
  then have "filter (\<lambda>expected. expected \<notin> set (map fst
      (filter (\<lambda>e. fst e \<in> set langkeys) given))) langkeys \<noteq> []"
    by (metis empty_iff list.set(1))
  then show ?thesis
    by (simp add: i18n_entry_def Let_def)
qed

lemma i18n_entry_count_template:
  assumes "k = ''selected-items'' \<or> k = ''dropped-items''"
    and "lacks_token (map_of given k) ''{{count}}'' \<or> lacks_token (map_of given k) ''{{items}}''"
  shows "i18n_entry lang (code, JObject given) = Inl TypeError \<or>
         i18n_entry lang (code, JObject given) = Inl SyntaxError"
proof -
  let ?strings = "filter (\<lambda>e. fst e \<in> set langkeys) given"
  from assms(1) have k: "k \<in> set langkeys" by (auto simp: langkeys_def)
  from assms(2) have "k \<in> fst ` set given" by (auto dest: lacks_token_key)
  with k have keys: "k \<in> set (map fst ?strings)" by auto
  from k have "map_of ?strings k = map_of given k"
    by (simp add: map_of_filter_key [where P = "\<lambda>x. x \<in> set langkeys"])
  with assms have "notoken ?strings k"
    by (auto simp: notoken_def)
  with keys have "k \<in> set (filter (notoken ?strings) (map fst ?strings))" by simp
  then have "filter (notoken ?strings) (map fst ?strings) \<noteq> []"
    by (metis empty_iff list.set(1))
  then show ?thesis
    by (simp add: i18n_entry_def Let_def)
qed

text \<open>
  Claim C9. Registering a single table that is missing one of the required keys, or whose
  count template (\<open>selected-items\<close> or \<open>dropped-items\<close>) lacks \<open>{{count}}\<close> or \<open>{{items}}\<close>,
  throws a TypeError or a SyntaxError and leaves the dictionary exactly as it was: the
  rejected table leaves no entry and no partial entry for its code, whatever the
  dictionary held before.
\<close>

theorem i18n_rejects_malformed_table:
  assumes "(\<exists>k. k \<in> set langkeys \<and> k \<notin> fst ` set given) \<or>
           (\<exists>k. (k = ''selected-items'' \<or> k = ''dropped-items'') \<and>
                (lacks_token (map_of given k) ''{{count}}'' \<or>
                 lacks_token (map_of given k) ''{{items}}''))"
  shows "\<exists>e. (e = TypeError \<or> e = SyntaxError) \<and>
             i18n lang [(code, JObject given)] = (Some e, lang)"
proof -
  from assms consider
    (missing) k where "k \<in> set langkeys" "k \<notin> fst ` set given"
  | (template) k where "k = ''selected-items'' \<or> k = ''dropped-items''"
      "lacks_token (map_of given k) ''{{count}}'' \<or> lacks_token (map_of given k) ''{{items}}''"
    by blast
  then show ?thesis
  proof cases
    case missing
    then have "i18n_entry lang (code, JObject given) = Inl TypeError"
      by (rule i18n_entry_missing_key)
    then show ?thesis by simp
  next
    case template
    then have "i18n_entry lang (code, JObject given) = Inl TypeError \<or>
         i18n_entry lang (code, JObject given) = Inl SyntaxError"
      by (rule i18n_entry_count_template)
    then show ?thesis by auto
  qed
qed

theorem i18n_rejects_malformed_table_witness:
  "(\<exists>k. k \<in> set langkeys \<and> k \<notin> fst ` set [(''item-single'', JString ''objet'')]) \<and>
   (\<exists>e. (e = TypeError \<or> e = SyntaxError) \<and>
        i18n default_language [(''fr'', JObject [(''item-single'', JString ''objet'')])]
          = (Some e, default_language))"
proof -
  have "''item-plural'' \<in> set langkeys \<and>
        ''item-plural'' \<notin> fst ` set [(''item-single'', JString ''objet'')]"
    by (simp add: langkeys_def)
  then have h: "\<exists>k. k \<in> set langkeys \<and> k \<notin> fst ` set [(''item-single'', JString ''objet'')]"
    by blast
  then show ?thesis
    using i18n_rejects_malformed_table
      [of "[(''item-single'', JString ''objet'')]" default_language "''fr''"]
    by blast
qed

section \<open>How the updates of the world show in its observers\<close>

lemma sel_set_sel [simp]: "sel (set_sel i f w) j = (if j = i then f (sel w i) else sel w j)"
  by (simp add: sel_def set_sel_def)

lemma sel_set_observing [simp]: "sel (set_observing i b w) j = sel w j"
  by (simp add: sel_def set_observing_def)

lemma sel_set_coll [simp]: "sel (set_coll i c f w) j = sel w j"
  by (simp add: sel_def set_coll_def)

lemma coll_set_sel [simp]: "coll (set_sel i f w) j c = coll w j c"
  by (simp add: coll_def set_sel_def)

lemma coll_set_observing [simp]: "coll (set_observing i b w) j c = coll w j c"
  by (simp add: coll_def set_observing_def)

lemma conts_set_sel [simp]: "conts (set_sel i f w) j = conts w j"
  by (simp add: conts_def set_sel_def)

lemma conts_set_observing [simp]: "conts (set_observing i b w) j = conts w j"
  by (simp add: conts_def set_observing_def)

lemma conts_set_coll [simp]: "conts (set_coll i c f w) j = conts w j"
  by (auto simp: conts_def set_coll_def split_def)

lemma map_of_map_upd:
  "map_of (map (\<lambda>(k, e). if k = c then (k, f e) else (k, e)) xs) c' =
     (if c' = c then map_option f (map_of xs c) else map_of xs c')"
  by (induction xs) auto

lemma coll_set_coll [simp]:
  "coll (set_coll i c f w) j c' =
     (if j = i \<and> c' = c then map_option f (coll w i c) else coll w j c')"
  by (simp add: coll_def set_coll_def map_of_map_upd)

lemma obs_set_sel [simp]: "obs (set_sel i f w) j = obs w j"
  by (simp add: obs_def set_sel_def)

lemma obs_set_coll [simp]: "obs (set_coll i c f w) j = obs w j"
  by (simp add: obs_def set_coll_def)

lemma obs_set_observing [simp]: "obs (set_observing i b w) j = (if j = i then b else obs w j)"
  by (simp add: obs_def set_observing_def)

lemma fields_set_sel [simp]:
  "draginstance (set_sel i f w) = draginstance w"
  "dom_items (set_sel i f w) = dom_items w"
  "state_attr (set_sel i f w) = state_attr w"
  "item_state (set_sel i f w) = item_state w"
  "item_role (set_sel i f w) = item_role w"
  "aria_disabled (set_sel i f w) = aria_disabled w"
  "drag_disabled (set_sel i f w) = drag_disabled w"
  "activedescendant (set_sel i f w) = activedescendant w"
  "lastdescendant (set_sel i f w) = lastdescendant w"
  "drag_valid (set_sel i f w) = drag_valid w"
  "drag_sorted (set_sel i f w) = drag_sorted w"
  "drag_safari (set_sel i f w) = drag_safari w"
  by (simp_all add: set_sel_def)

lemma fields_set_observing [simp]:
  "draginstance (set_observing i b w) = draginstance w"
  "dom_items (set_observing i b w) = dom_items w"
  "state_attr (set_observing i b w) = state_attr w"
  "item_state (set_observing i b w) = item_state w"
  "item_role (set_observing i b w) = item_role w"
  "aria_disabled (set_observing i b w) = aria_disabled w"
  "drag_disabled (set_observing i b w) = drag_disabled w"
  "activedescendant (set_observing i b w) = activedescendant w"
  "lastdescendant (set_observing i b w) = lastdescendant w"
  "drag_valid (set_observing i b w) = drag_valid w"
  "drag_sorted (set_observing i b w) = drag_sorted w"
  "drag_safari (set_observing i b w) = drag_safari w"
  by (simp_all add: set_observing_def)

lemma fields_set_coll [simp]:
  "draginstance (set_coll i c f w) = draginstance w"
  "dom_items (set_coll i c f w) = dom_items w"
  "state_attr (set_coll i c f w) = state_attr w"
  "item_state (set_coll i c f w) = item_state w"
  "item_role (set_coll i c f w) = item_role w"
  "aria_disabled (set_coll i c f w) = aria_disabled w"
  "drag_disabled (set_coll i c f w) = drag_disabled w"
  "activedescendant (set_coll i c f w) = activedescendant w"
  "lastdescendant (set_coll i c f w) = lastdescendant w"
  "drag_valid (set_coll i c f w) = drag_valid w"
  "drag_sorted (set_coll i c f w) = drag_sorted w"
  "drag_safari (set_coll i c f w) = drag_safari w"
  by (simp_all add: set_coll_def)

text \<open>Observers of the instances are untouched by updates of the document fields.\<close>

lemma sel_dom_update [simp]:
  "sel (w\<lparr>draginstance := a\<rparr>) = sel w"
  "sel (w\<lparr>dom_items := b\<rparr>) = sel w"
  "sel (w\<lparr>item_state := c\<rparr>) = sel w"
  "sel (w\<lparr>aria_disabled := d\<rparr>) = sel w"
  "sel (w\<lparr>drag_disabled := e\<rparr>) = sel w"
  "sel (w\<lparr>activedescendant := f\<rparr>) = sel w"
  "sel (w\<lparr>lastdescendant := g\<rparr>) = sel w"
  "sel (w\<lparr>drag_valid := h\<rparr>) = sel w"
  by (simp_all add: sel_def fun_eq_iff)

lemma coll_dom_update [simp]:
  "coll (w\<lparr>draginstance := a\<rparr>) = coll w"
  "coll (w\<lparr>dom_items := b\<rparr>) = coll w"
  "coll (w\<lparr>item_state := c\<rparr>) = coll w"
  "coll (w\<lparr>aria_disabled := d\<rparr>) = coll w"
  "coll (w\<lparr>drag_disabled := e\<rparr>) = coll w"
  "coll (w\<lparr>activedescendant := f\<rparr>) = coll w"
  "coll (w\<lparr>lastdescendant := g\<rparr>) = coll w"
  "coll (w\<lparr>drag_valid := h\<rparr>) = coll w"
  by (simp_all add: coll_def fun_eq_iff)

lemma conts_dom_update [simp]:
  "conts (w\<lparr>draginstance := a\<rparr>) = conts w"
  "conts (w\<lparr>dom_items := b\<rparr>) = conts w"
  "conts (w\<lparr>item_state := c\<rparr>) = conts w"
  "conts (w\<lparr>aria_disabled := d\<rparr>) = conts w"
  "conts (w\<lparr>drag_disabled := e\<rparr>) = conts w"
  "conts (w\<lparr>activedescendant := f\<rparr>) = conts w"
  "conts (w\<lparr>lastdescendant := g\<rparr>) = conts w"
  "conts (w\<lparr>drag_valid := h\<rparr>) = conts w"
  by (simp_all add: conts_def fun_eq_iff)

lemma obs_dom_update [simp]:
  "obs (w\<lparr>draginstance := a\<rparr>) = obs w"
  "obs (w\<lparr>dom_items := b\<rparr>) = obs w"
  "obs (w\<lparr>item_state := c\<rparr>) = obs w"
  "obs (w\<lparr>aria_disabled := d\<rparr>) = obs w"
  "obs (w\<lparr>drag_disabled := e\<rparr>) = obs w"
  "obs (w\<lparr>activedescendant := f\<rparr>) = obs w"
  "obs (w\<lparr>lastdescendant := g\<rparr>) = obs w"
  "obs (w\<lparr>drag_valid := h\<rparr>) = obs w"
  by (simp_all add: obs_def fun_eq_iff)

lemma members_updates [simp]:
  "collection (instances (set_sel i f w) j) = collection (instances w j)"
  "collection (instances (set_observing i b w) j) = collection (instances w j)"
  "collection (instances (set_touching i b w) j) = collection (instances w j)"
  "collection (instances (set_dragenter i n w) j) = collection (instances w j)"
  "collection (instances (w\<lparr>draginstance := a\<rparr>) j) = collection (instances w j)"
  "collection (instances (w\<lparr>dom_items := d\<rparr>) j) = collection (instances w j)"
  "collection (instances (w\<lparr>item_state := s\<rparr>) j) = collection (instances w j)"
  "collection (instances (w\<lparr>aria_disabled := ad\<rparr>) j) = collection (instances w j)"
  "collection (instances (w\<lparr>drag_disabled := dd\<rparr>) j) = collection (instances w j)"
  "collection (instances (w\<lparr>activedescendant := ac\<rparr>) j) = collection (instances w j)"
  "collection (instances (w\<lparr>lastdescendant := la\<rparr>) j) = collection (instances w j)"
  "collection (instances (w\<lparr>drag_valid := dv\<rparr>) j) = collection (instances w j)"
  by (simp_all add: set_sel_def set_observing_def set_touching_def set_dragenter_def)

lemma touching_updates [simp]:
  "touching (instances (set_sel i f w) j) = touching (instances w j)"
  "touching (instances (set_observing i b w) j) = touching (instances w j)"
  "touching (instances (set_coll i c g w) j) = touching (instances w j)"
  "touching (instances (set_dragenter i n w) j) = touching (instances w j)"
  "touching (instances (set_touching i b w) j) = (if j = i then b else touching (instances w j))"
  "touching (instances (w\<lparr>draginstance := a\<rparr>) j) = touching (instances w j)"
  "touching (instances (w\<lparr>dom_items := d\<rparr>) j) = touching (instances w j)"
  "touching (instances (w\<lparr>item_state := s\<rparr>) j) = touching (instances w j)"
  "touching (instances (w\<lparr>aria_disabled := ad\<rparr>) j) = touching (instances w j)"
  "touching (instances (w\<lparr>drag_disabled := dd\<rparr>) j) = touching (instances w j)"
  "touching (instances (w\<lparr>activedescendant := ac\<rparr>) j) = touching (instances w j)"
  "touching (instances (w\<lparr>lastdescendant := la\<rparr>) j) = touching (instances w j)"
  "touching (instances (w\<lparr>drag_valid := dv\<rparr>) j) = touching (instances w j)"
  by (simp_all add: set_sel_def set_observing_def set_touching_def set_dragenter_def set_coll_def)

lemma dragenter_updates [simp]:
  "dragenter (instances (set_sel i f w) j) = dragenter (instances w j)"
  "dragenter (instances (set_observing i b w) j) = dragenter (instances w j)"
  "dragenter (instances (set_coll i c g w) j) = dragenter (instances w j)"
  "dragenter (instances (set_touching i b w) j) = dragenter (instances w j)"
  "dragenter (instances (set_dragenter i n w) j) = (if j = i then n else dragenter (instances w j))"
  "dragenter (instances (w\<lparr>draginstance := a\<rparr>) j) = dragenter (instances w j)"
  "dragenter (instances (w\<lparr>dom_items := d\<rparr>) j) = dragenter (instances w j)"
  "dragenter (instances (w\<lparr>item_state := s\<rparr>) j) = dragenter (instances w j)"
  "dragenter (instances (w\<lparr>aria_disabled := ad\<rparr>) j) = dragenter (instances w j)"
  "dragenter (instances (w\<lparr>drag_disabled := dd\<rparr>) j) = dragenter (instances w j)"
  "dragenter (instances (w\<lparr>activedescendant := ac\<rparr>) j) = dragenter (instances w j)"
  "dragenter (instances (w\<lparr>lastdescendant := la\<rparr>) j) = dragenter (instances w j)"
  "dragenter (instances (w\<lparr>drag_valid := dv\<rparr>) j) = dragenter (instances w j)"
  by (simp_all add: set_sel_def set_observing_def set_touching_def set_dragenter_def set_coll_def)

lemma observers_set_touching [simp]:
  "sel (set_touching i b w) = sel w"
  "coll (set_touching i b w) = coll w"
  "conts (set_touching i b w) = conts w"
  "obs (set_touching i b w) = obs w"
  by (simp_all add: sel_def coll_def conts_def obs_def set_touching_def fun_eq_iff)

lemma observers_set_dragenter [simp]:
  "sel (set_dragenter i n w) = sel w"
  "coll (set_dragenter i n w) = coll w"
  "conts (set_dragenter i n w) = conts w"
  "obs (set_dragenter i n w) = obs w"
  by (simp_all add: sel_def coll_def conts_def obs_def set_dragenter_def fun_eq_iff)

lemma fields_set_touching [simp]:
  "draginstance (set_touching i b w) = draginstance w"
  "dom_items (set_touching i b w) = dom_items w"
  "state_attr (set_touching i b w) = state_attr w"
  "item_state (set_touching i b w) = item_state w"
  "item_role (set_touching i b w) = item_role w"
  "aria_disabled (set_touching i b w) = aria_disabled w"
  "drag_disabled (set_touching i b w) = drag_disabled w"
  "activedescendant (set_touching i b w) = activedescendant w"
  "lastdescendant (set_touching i b w) = lastdescendant w"
  "drag_valid (set_touching i b w) = drag_valid w"
  "drag_sorted (set_touching i b w) = drag_sorted w"
  "drag_safari (set_touching i b w) = drag_safari w"
  by (simp_all add: set_touching_def)

lemma fields_set_dragenter [simp]:
  "draginstance (set_dragenter i n w) = draginstance w"
  "dom_items (set_dragenter i n w) = dom_items w"
  "state_attr (set_dragenter i n w) = state_attr w"
  "item_state (set_dragenter i n w) = item_state w"
  "item_role (set_dragenter i n w) = item_role w"
  "aria_disabled (set_dragenter i n w) = aria_disabled w"
  "drag_disabled (set_dragenter i n w) = drag_disabled w"
  "activedescendant (set_dragenter i n w) = activedescendant w"
  "lastdescendant (set_dragenter i n w) = lastdescendant w"
  "drag_valid (set_dragenter i n w) = drag_valid w"
  "drag_sorted (set_dragenter i n w) = drag_sorted w"
  "drag_safari (set_dragenter i n w) = drag_safari w"
  by (simp_all add: set_dragenter_def)

lemma getClosest_updates [simp]:
  "getClosest (set_sel i f w) = getClosest w"
  "getClosest (set_observing i b w) = getClosest w"
  "getClosest (set_touching i b w) = getClosest w"
  "getClosest (set_dragenter i n w) = getClosest w"
  "getClosest (set_coll i c g w) = getClosest w"
  "getClosest (w\<lparr>draginstance := a\<rparr>) = getClosest w"
  "getClosest (w\<lparr>item_state := s\<rparr>) = getClosest w"
  "getClosest (w\<lparr>aria_disabled := ad\<rparr>) = getClosest w"
  "getClosest (w\<lparr>drag_disabled := dd\<rparr>) = getClosest w"
  "getClosest (w\<lparr>activedescendant := ac\<rparr>) = getClosest w"
  "getClosest (w\<lparr>lastdescendant := la\<rparr>) = getClosest w"
  "getClosest (w\<lparr>drag_valid := dv\<rparr>) = getClosest w"
  by (simp_all add: getClosest_def fun_eq_iff)

section \<open>Selection operations preserve the invariant\<close>

subsection \<open>Frame relations between worlds\<close>

lemma same_document_refl [simp]: "same_document w w"
  by (simp add: same_document_def)

lemma same_document_trans: "same_document w w1 \<Longrightarrow> same_document w1 w2 \<Longrightarrow> same_document w w2"
  by (simp add: same_document_def)

lemma same_document_conts: "same_document w w' \<Longrightarrow> conts w' i = conts w i"
  by (simp add: same_document_def conts_def)

lemma same_document_coll: "same_document w w' \<Longrightarrow> coll w' i c = coll w i c"
  by (simp add: same_document_def coll_def)

lemma same_document_getClosest: "same_document w w' \<Longrightarrow> getClosest w' i x = getClosest w i x"
  by (simp add: getClosest_def same_document_conts) (simp add: same_document_def)

lemma same_selections_refl [simp]: "same_selections w w"
  by (simp add: same_selections_def)

lemma same_selections_trans:
  "same_selections w w1 \<Longrightarrow> same_selections w1 w2 \<Longrightarrow> same_selections w w2"
  by (auto simp: same_selections_def intro: same_document_trans)

lemma same_selections_sel: "same_selections w w' \<Longrightarrow> sel w' i = sel w i"
  by (simp add: same_selections_def sel_def)

lemma same_selections_obs: "same_selections w w' \<Longrightarrow> obs w' i = obs w i"
  by (simp add: same_selections_def obs_def)

lemma same_selections_target_items: "same_selections w w' \<Longrightarrow> target_items w' i = target_items w i"
  by (simp add: target_items_def same_selections_def sel_def)

text \<open>restore / disable folds\<close>

lemma restore_disabled_same: "same_selections w (restore_disabled x w)"
  by (simp add: restore_disabled_def same_selections_def same_document_def)

lemma fold_restore_disabled_same: "same_selections w (fold restore_disabled xs w)"
proof (induction xs arbitrary: w)
  case Nil
  show ?case by simp
next
  case (Cons x xs)
  from restore_disabled_same [of w x] Cons [of "restore_disabled x w"] show ?case
    by (auto intro: same_selections_trans)
qed

lemma fold_restore_disabled_other:
  "y \<notin> set xs \<Longrightarrow> aria_disabled (fold restore_disabled xs w) y = aria_disabled w y"
  by (induction xs arbitrary: w) (auto simp: restore_disabled_def)

lemma disable_dragitem_same: "same_selections w (disable_dragitem x w)"
  by (simp add: disable_dragitem_def same_selections_def same_document_def)

lemma fold_disable_dragitem_same: "same_selections w (fold disable_dragitem xs w)"
proof (induction xs arbitrary: w)
  case Nil
  show ?case by simp
next
  case (Cons x xs)
  from disable_dragitem_same [of w x] Cons [of "disable_dragitem x w"] show ?case
    by (auto intro: same_selections_trans)
qed

lemma fold_disable_dragitem_other:
  "y \<notin> set xs \<Longrightarrow> aria_disabled (fold disable_dragitem xs w) y = aria_disabled w y"
  by (induction xs arbitrary: w) (auto simp: disable_dragitem_def)

text \<open>clearDragValid\<close>

lemma clearDragValid_target_same: "same_selections w (clearDragValid_target i m w)"
proof -
  let ?w1 = "w\<lparr>drag_valid := (drag_valid w)(fst m := None)\<rparr>"
  have 1: "same_selections w ?w1"
    by (simp add: same_selections_def same_document_def)
  have 2: "same_selections ?w1 (fold restore_disabled (coll_dragitems (snd m)) ?w1)"
    by (rule fold_restore_disabled_same)
  from 1 2 show ?thesis
    by (auto simp: clearDragValid_target_def Let_def intro: same_selections_trans)
qed

lemma clearDragValid_target_other:
  assumes "Some (fst m) \<noteq> sel_owner (sel w i) \<or> \<not> sel_nodesort (sel w i) \<longrightarrow>
           y \<notin> set (coll_dragitems (snd m))"
  shows "aria_disabled (clearDragValid_target i m w) y = aria_disabled w y"
  using assms
  by (auto simp: clearDragValid_target_def Let_def fold_restore_disabled_other)

lemma fold_clearDragValid_target_same: "same_selections w (fold (clearDragValid_target i) ms w)"
proof (induction ms arbitrary: w)
  case Nil
  show ?case by simp
next
  case (Cons m ms)
  from clearDragValid_target_same [of w i m] Cons [of "clearDragValid_target i m w"] show ?case
    by (auto intro: same_selections_trans)
qed

lemma fold_clearDragValid_target_other:
  assumes "\<forall>m\<in>set ms. Some (fst m) \<noteq> sel_owner (sel w i) \<or> \<not> sel_nodesort (sel w i) \<longrightarrow>
           y \<notin> set (coll_dragitems (snd m))"
  shows "aria_disabled (fold (clearDragValid_target i) ms w) y = aria_disabled w y"
  using assms
proof (induction ms arbitrary: w)
  case Nil
  show ?case by simp
next
  case (Cons m ms)
  let ?w1 = "clearDragValid_target i m w"
  have s: "sel ?w1 i = sel w i"
    using clearDragValid_target_same [of w i m] by (rule same_selections_sel)
  from Cons.prems have "aria_disabled ?w1 y = aria_disabled w y"
    by (intro clearDragValid_target_other) simp
  moreover from Cons.prems s have "aria_disabled (fold (clearDragValid_target i) ms ?w1) y
      = aria_disabled ?w1 y"
    by (intro Cons.IH) simp
  ultimately show ?case by simp
qed

lemma clearDragValid_same: "same_selections w (clearDragValid i w)"
  by (simp add: clearDragValid_def fold_clearDragValid_target_same)

lemma clearDragValid_other:
  assumes "sel_nodesort (sel w i)" "y \<notin> target_items w i"
  shows "aria_disabled (clearDragValid i w) y = aria_disabled w y"
proof (cases "sel_dragitems (sel w i) = []")
  case True
  then show ?thesis by (simp add: clearDragValid_def)
next
  case False
  have "aria_disabled (fold (clearDragValid_target i) (collection (instances w i)) w) y
      = aria_disabled w y"
  proof (rule fold_clearDragValid_target_other, rule ballI)
    fix m assume m: "m \<in> set (collection (instances w i))"
    show "Some (fst m) \<noteq> sel_owner (sel w i) \<or> \<not> sel_nodesort (sel w i) \<longrightarrow>
           y \<notin> set (coll_dragitems (snd m))"
    proof
      assume "Some (fst m) \<noteq> sel_owner (sel w i) \<or> \<not> sel_nodesort (sel w i)"
      with assms(1) have "Some (fst m) \<noteq> sel_owner (sel w i)" by simp
      with m assms(2) show "y \<notin> set (coll_dragitems (snd m))"
        by (auto simp: target_items_def split: if_splits)
    qed
  qed
  with False show ?thesis by (simp add: clearDragValid_def)
qed

lemma clearDragValid_uncollected:
  assumes "y \<notin> collected_items w i"
  shows "aria_disabled (clearDragValid i w) y = aria_disabled w y"
proof (cases "sel_dragitems (sel w i) = []")
  case True
  then show ?thesis by (simp add: clearDragValid_def)
next
  case False
  have "aria_disabled (fold (clearDragValid_target i) (collection (instances w i)) w) y
      = aria_disabled w y"
  proof (rule fold_clearDragValid_target_other, rule ballI)
    fix m assume m: "m \<in> set (collection (instances w i))"
    with assms have "y \<notin> set (coll_dragitems (snd m))"
      by (auto simp: collected_items_def)
    then show "Some (fst m) \<noteq> sel_owner (sel w i) \<or> \<not> sel_nodesort (sel w i) \<longrightarrow>
           y \<notin> set (coll_dragitems (snd m))" by simp
  qed
  with False show ?thesis by (simp add: clearDragValid_def)
qed

subsection \<open>The action combinators and the validity marking\<close>

lemma for_each_returns:
  assumes "P xs w"
    and "\<And>x rest w. P (x # rest) w \<Longrightarrow> \<exists>w'. f x w = (Returns (), w') \<and> P rest w'"
  shows "\<exists>w'. for_each f xs w = (Returns (), w') \<and> P [] w'"
  using assms(1)
proof (induction xs arbitrary: w)
  case Nil
  then show ?case by simp
next
  case (Cons x xs)
  from assms(2) [OF Cons.prems] obtain w1 where w1: "f x w = (Returns (), w1)" "P xs w1"
    by blast
  from Cons.IH [OF w1(2)] obtain w' where "for_each f xs w1 = (Returns (), w')" "P [] w'"
    by blast
  with w1 show ?case by simp
qed

lemma and_then_returns:
  "f w = (Returns (), w1) \<Longrightarrow> and_then f g w = g w1"
  by (simp add: and_then_def)

lemma and_then_throws:
  "f w = (Throws e, w1) \<Longrightarrow> and_then f g w = (Throws e, w1)"
  by (simp add: and_then_def)

lemma done_with_returns [simp]: "done_with f w = (Returns (), f w)"
  by (simp add: done_with_def)

text \<open>addDragValid\<close>

lemma addDragValid_target_returns:
  assumes "sel_owner (sel w i) \<noteq> None"
  shows "\<exists>w'. addDragValid_target i m w = (Returns (), w') \<and> same_selections w w' \<and>
     (\<forall>y. (Some (fst m) \<noteq> sel_owner (sel w i) \<longrightarrow> y \<notin> set (coll_dragitems (snd m))) \<longrightarrow>
        aria_disabled w' y = aria_disabled w y)"
proof -
  let ?w1 = "w\<lparr>drag_valid := (drag_valid w)(fst m \<mapsto> ''false'')\<rparr>"
  let ?w2 = "?w1\<lparr>drag_valid := (drag_valid ?w1)(fst m \<mapsto> ''true'')\<rparr>"
  have 1: "same_selections w ?w1" "same_selections w ?w2"
    by (simp_all add: same_selections_def same_document_def)
  have 2: "same_selections ?w2 (fold disable_dragitem (coll_dragitems (snd m)) ?w2)"
    by (rule fold_disable_dragitem_same)
  from 1 2 have 3: "same_selections w (fold disable_dragitem (coll_dragitems (snd m)) ?w2)"
    by (blast intro: same_selections_trans)
  have 4: "\<And>y. y \<notin> set (coll_dragitems (snd m)) \<Longrightarrow>
     aria_disabled (fold disable_dragitem (coll_dragitems (snd m)) ?w2) y = aria_disabled w y"
    by (simp add: fold_disable_dragitem_other)
  show ?thesis
  proof (cases "Some (fst m) \<noteq> sel_owner (sel w i)")
    case True
    with assms 3 4 show ?thesis
      by (simp add: addDragValid_target_def Let_def)
  next
    case False
    with assms 1 show ?thesis
      by (simp add: addDragValid_target_def Let_def)
  qed
qed

lemma addDragValid_returns:
  assumes "sel_owner (sel w i) \<noteq> None"
  shows "\<exists>w'. addDragValid i w = (Returns (), w') \<and> same_selections w w' \<and>
     (\<forall>y. y \<notin> target_items w i \<longrightarrow> aria_disabled w' y = aria_disabled w y)"
proof -
  let ?P = "\<lambda>rest w'. same_selections w w' \<and> set rest \<subseteq> set (collection (instances w i)) \<and>
     (\<forall>y. y \<notin> target_items w i \<longrightarrow> aria_disabled w' y = aria_disabled w y)"
  have "\<exists>w'. for_each (addDragValid_target i) (collection (instances w i)) w = (Returns (), w')
      \<and> ?P [] w'"
  proof (rule for_each_returns [where P = ?P])
    show "?P (collection (instances w i)) w" by simp
  next
    fix m rest w1
    assume P: "?P (m # rest) w1"
    then have s: "sel w1 i = sel w i" by (simp add: same_selections_sel)
    with assms have "sel_owner (sel w1 i) \<noteq> None" by simp
    from addDragValid_target_returns [OF this, of m] obtain w2 where
      w2: "addDragValid_target i m w1 = (Returns (), w2)" "same_selections w1 w2"
        "\<forall>y. (Some (fst m) \<noteq> sel_owner (sel w1 i) \<longrightarrow> y \<notin> set (coll_dragitems (snd m))) \<longrightarrow>
           aria_disabled w2 y = aria_disabled w1 y"
      by blast
    have "\<forall>y. y \<notin> target_items w i \<longrightarrow> aria_disabled w2 y = aria_disabled w y"
    proof (intro allI impI)
      fix y assume y: "y \<notin> target_items w i"
      from P have "m \<in> set (collection (instances w i))" by simp
      with y have "Some (fst m) \<noteq> sel_owner (sel w i) \<longrightarrow> y \<notin> set (coll_dragitems (snd m))"
        by (auto simp: target_items_def split: if_splits)
      with w2(3) s have "aria_disabled w2 y = aria_disabled w1 y" by simp
      with P y show "aria_disabled w2 y = aria_disabled w y" by simp
    qed
    with w2 P show "\<exists>w'. addDragValid_target i m w1 = (Returns (), w') \<and> ?P rest w'"
      by (auto intro: same_selections_trans)
  qed
  then show ?thesis by (auto simp: addDragValid_def)
qed

lemma addDragValid_if_selected_returns:
  assumes "sel_dragitems (sel w i) \<noteq> [] \<longrightarrow> sel_owner (sel w i) \<noteq> None"
  shows "\<exists>w'. addDragValid_if_selected i w = (Returns (), w') \<and> same_selections w w' \<and>
     (\<forall>y. y \<notin> target_items w i \<longrightarrow> aria_disabled w' y = aria_disabled w y)"
proof (cases "sel_dragitems (sel w i) = []")
  case True
  then show ?thesis by (simp add: addDragValid_if_selected_def)
next
  case False
  with assms have "sel_owner (sel w i) \<noteq> None" by simp
  from addDragValid_returns [OF this] False show ?thesis
    by (simp add: addDragValid_if_selected_def)
qed

text \<open>removeSelection\<close>

lemma removeSelection_returns:
  assumes "(case droptarget of None \<Rightarrow> sel_owner (sel w i) | Some c \<Rightarrow> Some c) = Some c"
    and "getClosest w i x \<noteq> None"
  shows "\<exists>w'. removeSelection i x droptarget w = (Returns (), w') \<and> same_document w w' \<and>
     sel w' i = (sel w i)\<lparr>sel_dragitems := filter (\<lambda>y. y \<noteq> x) (sel_dragitems (sel w i)),
        sel_nodesort := (if filter (\<lambda>y. y \<noteq> x) (sel_dragitems (sel w i)) = [] then True
                         else sel_nodesort (sel w i))\<rparr> \<and>
     (\<forall>j. j \<noteq> i \<longrightarrow> sel w' j = sel w j \<and> obs w' j = obs w j) \<and>
     obs w' i = (if filter (\<lambda>y. y \<noteq> x) (sel_dragitems (sel w i)) = [] then True else obs w i) \<and>
     draginstance w' = (if filter (\<lambda>y. y \<noteq> x) (sel_dragitems (sel w i)) = [] then None
                        else draginstance w) \<and>
     item_state w' = (item_state w)(x := (item_state w x)(state_attr w c \<mapsto> ''false'')) \<and>
     aria_disabled w' = aria_disabled w \<and> drag_disabled w' = drag_disabled w \<and>
     drag_valid w' = drag_valid w"
  using assms
  by (auto simp: removeSelection_def Let_def same_document_def split: option.splits)

subsection \<open>Clearing a selection\<close>

lemma filter_not_in_snoc:
  "filter (\<lambda>y. y \<noteq> x) (filter (\<lambda>y. y \<notin> set pre) xs) = filter (\<lambda>y. y \<notin> set (pre @ [x])) xs"
  by (induction xs) auto

lemma clearSelections_returns:
  assumes nonempty: "sel_dragitems (sel w i) \<noteq> []"
    and target: "(case droptarget of None \<Rightarrow> sel_owner (sel w i) | Some c \<Rightarrow> Some c) = Some c"
    and closest: "\<forall>x\<in>set (sel_dragitems (sel w i)). getClosest w i x \<noteq> None"
  shows "\<exists>w'. clearSelections i droptarget w = (Returns (), w') \<and> same_document w w' \<and>
     sel_dragitems (sel w' i) = [] \<and> sel_owner (sel w' i) = None \<and>
     sel_droptarget (sel w' i) = sel_droptarget (sel w i) \<and> sel_nodesort (sel w' i) \<and>
     (\<forall>j. j \<noteq> i \<longrightarrow> sel w' j = sel w j \<and> obs w' j = obs w j) \<and>
     obs w' i \<and> draginstance w' = None \<and>
     (\<forall>y. y \<notin> set (sel_dragitems (sel w i)) \<longrightarrow> item_state w' y = item_state w y) \<and>
     (\<forall>y\<in>set (sel_dragitems (sel w i)). item_state w' y (state_attr w c) = Some ''false'') \<and>
     aria_disabled w' = aria_disabled w \<and> drag_disabled w' = drag_disabled w \<and>
     drag_valid w' = drag_valid w"
proof -
  let ?items = "sel_dragitems (sel w i)"
  let ?left = "\<lambda>pre. filter (\<lambda>y. y \<notin> set pre) ?items"
  let ?P = "\<lambda>rest w1. \<exists>pre. ?items = pre @ rest \<and> same_document w w1 \<and>
     sel_dragitems (sel w1 i) = ?left pre \<and> sel_owner (sel w1 i) = sel_owner (sel w i) \<and>
     sel_droptarget (sel w1 i) = sel_droptarget (sel w i) \<and>
     (pre \<noteq> [] \<and> ?left pre = [] \<longrightarrow> sel_nodesort (sel w1 i) \<and> obs w1 i \<and> draginstance w1 = None) \<and>
     (\<forall>j. j \<noteq> i \<longrightarrow> sel w1 j = sel w j \<and> obs w1 j = obs w j) \<and>
     (\<forall>y. y \<notin> set pre \<longrightarrow> item_state w1 y = item_state w y) \<and>
     (\<forall>y\<in>set pre. item_state w1 y (state_attr w c) = Some ''false'') \<and>
     aria_disabled w1 = aria_disabled w \<and> drag_disabled w1 = drag_disabled w \<and>
     drag_valid w1 = drag_valid w"
  have "\<exists>w1. for_each (\<lambda>dragitem. removeSelection i dragitem droptarget) ?items w
      = (Returns (), w1) \<and> ?P [] w1"
  proof (rule for_each_returns [where P = ?P])
    have "?left [] = ?items" by simp
    then show "?P ?items w" by (intro exI [of _ "[]"]) simp
  next
    fix x rest w1
    assume "?P (x # rest) w1"
    then obtain pre where pre: "?items = pre @ x # rest" "same_document w w1"
      "sel_dragitems (sel w1 i) = ?left pre" "sel_owner (sel w1 i) = sel_owner (sel w i)"
      "sel_droptarget (sel w1 i) = sel_droptarget (sel w i)"
      "\<forall>j. j \<noteq> i \<longrightarrow> sel w1 j = sel w j \<and> obs w1 j = obs w j"
      "\<forall>y. y \<notin> set pre \<longrightarrow> item_state w1 y = item_state w y"
      "\<forall>y\<in>set pre. item_state w1 y (state_attr w c) = Some ''false''"
      "aria_disabled w1 = aria_disabled w" "drag_disabled w1 = drag_disabled w"
      "drag_valid w1 = drag_valid w"
      by blast
    from pre(1) have xin: "x \<in> set ?items" by simp
    from target pre(4) have t1: "(case droptarget of None \<Rightarrow> sel_owner (sel w1 i)
        | Some c \<Rightarrow> Some c) = Some c" by (simp split: option.splits)
    from closest xin pre(2) have c1: "getClosest w1 i x \<noteq> None"
      by (simp add: same_document_getClosest)
    from removeSelection_returns [OF t1 c1] obtain w2 where
      w2: "removeSelection i x droptarget w1 = (Returns (), w2)" "same_document w1 w2"
      "sel w2 i = (sel w1 i)\<lparr>sel_dragitems := filter (\<lambda>y. y \<noteq> x) (sel_dragitems (sel w1 i)),
        sel_nodesort := (if filter (\<lambda>y. y \<noteq> x) (sel_dragitems (sel w1 i)) = [] then True
                         else sel_nodesort (sel w1 i))\<rparr>"
      "\<forall>j. j \<noteq> i \<longrightarrow> sel w2 j = sel w1 j \<and> obs w2 j = obs w1 j"
      "obs w2 i = (if filter (\<lambda>y. y \<noteq> x) (sel_dragitems (sel w1 i)) = [] then True else obs w1 i)"
      "draginstance w2 = (if filter (\<lambda>y. y \<noteq> x) (sel_dragitems (sel w1 i)) = [] then None
                        else draginstance w1)"
      "item_state w2 = (item_state w1)(x := (item_state w1 x)(state_attr w1 c \<mapsto> ''false''))"
      "aria_disabled w2 = aria_disabled w1" "drag_disabled w2 = drag_disabled w1"
      "drag_valid w2 = drag_valid w1"
      by blast
    have left: "filter (\<lambda>y. y \<noteq> x) (sel_dragitems (sel w1 i)) = ?left (pre @ [x])"
      by (simp only: pre(3) filter_not_in_snoc)
    from pre(2) have attr: "state_attr w1 c = state_attr w c" by (simp add: same_document_def)
    have "?items = (pre @ [x]) @ rest" using pre(1) by simp
    moreover have "same_document w w2" using pre(2) w2(2) by (rule same_document_trans)
    moreover have "sel_dragitems (sel w2 i) = ?left (pre @ [x])"
      using w2(3) left by simp
    moreover have "sel_owner (sel w2 i) = sel_owner (sel w i)"
      "sel_droptarget (sel w2 i) = sel_droptarget (sel w i)"
      using w2(3) pre(4,5) by simp_all
    moreover have "(pre @ [x]) \<noteq> [] \<and> ?left (pre @ [x]) = [] \<longrightarrow>
        sel_nodesort (sel w2 i) \<and> obs w2 i \<and> draginstance w2 = None"
      using w2(3,5,6) left by simp
    moreover have "\<forall>j. j \<noteq> i \<longrightarrow> sel w2 j = sel w j \<and> obs w2 j = obs w j"
      using w2(4) pre(6) by simp
    moreover have "\<forall>y. y \<notin> set (pre @ [x]) \<longrightarrow> item_state w2 y = item_state w y"
      using w2(7) pre(7) by simp
    moreover have "\<forall>y\<in>set (pre @ [x]). item_state w2 y (state_attr w c) = Some ''false''"
      using w2(7) pre(8) attr by simp
    moreover have "aria_disabled w2 = aria_disabled w" "drag_disabled w2 = drag_disabled w"
      "drag_valid w2 = drag_valid w"
      using w2(8,9,10) pre(9,10,11) by simp_all
    ultimately have "?P rest w2" by blast
    with w2(1) show "\<exists>w'. removeSelection i x droptarget w1 = (Returns (), w') \<and> ?P rest w'"
      by blast
  qed
  then obtain w1 where loop: "for_each (\<lambda>dragitem. removeSelection i dragitem droptarget) ?items w
      = (Returns (), w1)" and P: "?P [] w1" by blast
  from P nonempty have w1: "same_document w w1"
      "sel_dragitems (sel w1 i) = []"
      "sel_droptarget (sel w1 i) = sel_droptarget (sel w i)"
      "sel_nodesort (sel w1 i)" "obs w1 i" "draginstance w1 = None"
      "\<forall>j. j \<noteq> i \<longrightarrow> sel w1 j = sel w j \<and> obs w1 j = obs w j"
      "\<forall>y. y \<notin> set ?items \<longrightarrow> item_state w1 y = item_state w y"
      "\<forall>y\<in>set ?items. item_state w1 y (state_attr w c) = Some ''false''"
      "aria_disabled w1 = aria_disabled w" "drag_disabled w1 = drag_disabled w"
      "drag_valid w1 = drag_valid w"
    by auto
  let ?w' = "set_sel i (\<lambda>s. s\<lparr>sel_owner := None\<rparr>) w1"
  have res: "clearSelections i droptarget w = (Returns (), ?w')"
    using nonempty loop by (simp add: clearSelections_def and_then_def)
  have doc: "same_document w1 ?w'"
    by (simp add: same_document_def)
  from doc w1(1) have "same_document w ?w'" by (blast intro: same_document_trans)
  with res w1 show ?thesis by simp
qed

lemma clearSelections_empty:
  "sel_dragitems (sel w i) = [] \<Longrightarrow> clearSelections i droptarget w = (Returns (), w)"
  by (simp add: clearSelections_def)

subsection \<open>Consequences of the structural invariants\<close>

lemma colls_ok_entry:
  "colls_ok w \<Longrightarrow> c \<in> set (conts w i) \<Longrightarrow>
   \<exists>e. coll w i c = Some e \<and> coll_dragitems e = dom_items w c"
  by (auto simp: colls_ok_def)

lemma colls_ok_member:
  assumes "colls_ok w" "m \<in> set (collection (instances w i))"
  shows "fst m \<in> set (conts w i) \<and> coll_dragitems (snd m) = dom_items w (fst m)"
proof -
  from assms(1) have d: "distinct (map fst (collection (instances w i)))"
    by (simp add: colls_ok_def conts_def)
  from assms(2) have in_conts: "fst m \<in> set (conts w i)" by (simp add: conts_def)
  from d assms(2) have "map_of (collection (instances w i)) (fst m) = Some (snd m)"
    by (cases m) (simp add: map_of_eq_Some_iff)
  then have "coll w i (fst m) = Some (snd m)" by (simp add: coll_def)
  with colls_ok_entry [OF assms(1) in_conts] in_conts show ?thesis by auto
qed

lemma collected_items_dom:
  assumes "colls_ok w"
  shows "collected_items w i = (\<Union>c\<in>set (conts w i). set (dom_items w c))"
proof (rule set_eqI, rule iffI)
  fix x assume "x \<in> collected_items w i"
  then obtain m where m: "m \<in> set (collection (instances w i))" "x \<in> set (coll_dragitems (snd m))"
    by (auto simp: collected_items_def)
  with colls_ok_member [OF assms m(1)] show "x \<in> (\<Union>c\<in>set (conts w i). set (dom_items w c))"
    by auto
next
  fix x assume "x \<in> (\<Union>c\<in>set (conts w i). set (dom_items w c))"
  then obtain c where c: "c \<in> set (conts w i)" "x \<in> set (dom_items w c)" by auto
  then obtain m where m: "m \<in> set (collection (instances w i))" "fst m = c"
    by (auto simp: conts_def)
  with colls_ok_member [OF assms m(1)] c have "x \<in> set (coll_dragitems (snd m))" by simp
  with m(1) show "x \<in> collected_items w i"
    unfolding collected_items_def by blast
qed

lemma target_items_dom:
  assumes "colls_ok w"
  shows "target_items w i =
     (\<Union>c\<in>{c \<in> set (conts w i). Some c \<noteq> sel_owner (sel w i)}. set (dom_items w c))"
proof (rule set_eqI, rule iffI)
  fix x assume "x \<in> target_items w i"
  then obtain m where m: "m \<in> set (collection (instances w i))"
      "Some (fst m) \<noteq> sel_owner (sel w i)" "x \<in> set (coll_dragitems (snd m))"
    by (auto simp: target_items_def split: if_splits)
  with colls_ok_member [OF assms m(1)]
  show "x \<in> (\<Union>c\<in>{c \<in> set (conts w i). Some c \<noteq> sel_owner (sel w i)}. set (dom_items w c))"
    by auto
next
  fix x assume "x \<in> (\<Union>c\<in>{c \<in> set (conts w i). Some c \<noteq> sel_owner (sel w i)}. set (dom_items w c))"
  then obtain c where c: "c \<in> set (conts w i)" "Some c \<noteq> sel_owner (sel w i)"
      "x \<in> set (dom_items w c)" by auto
  then obtain m where m: "m \<in> set (collection (instances w i))" "fst m = c"
    by (auto simp: conts_def)
  with colls_ok_member [OF assms m(1)] c have "x \<in> set (coll_dragitems (snd m))"
    "Some (fst m) \<noteq> sel_owner (sel w i)" by simp_all
  then have "x \<in> (if Some (fst m) \<noteq> sel_owner (sel w i) then set (coll_dragitems (snd m)) else {})"
    by simp
  with m(1) show "x \<in> target_items w i"
    unfolding target_items_def by blast
qed

lemma dom_ok_unique:
  "dom_ok w \<Longrightarrow> x \<in> set (dom_items w c) \<Longrightarrow> x \<in> set (dom_items w c') \<Longrightarrow> c = c'"
  by (auto simp: dom_ok_def)

lemma conts_disjoint:
  assumes "colls_ok w" "c \<in> set (conts w i)" "c \<in> set (conts w j)"
  shows "i = j"
proof (rule ccontr)
  assume "i \<noteq> j"
  with assms(1) have "set (conts w i) \<inter> set (conts w j) = {}"
    unfolding colls_ok_def by metis
  with assms(2,3) show False by blast
qed

lemma foreign_not_collected:
  assumes "dom_ok w" "colls_ok w" "c \<in> set (conts w i)" "x \<in> set (dom_items w c)" "d \<noteq> i"
  shows "x \<notin> collected_items w d"
proof
  assume "x \<in> collected_items w d"
  with collected_items_dom [OF assms(2)] obtain c' where
    c': "c' \<in> set (conts w d)" "x \<in> set (dom_items w c')" by auto
  from dom_ok_unique [OF assms(1) assms(4) c'(2)] have "c = c'" .
  with c'(1) assms(3) conts_disjoint [OF assms(2)] have "i = d" by blast
  with assms(5) show False by simp
qed

lemma owner_not_target:
  assumes "dom_ok w" "colls_ok w" "sel_owner (sel w i) = Some c" "x \<in> set (dom_items w c)"
  shows "x \<notin> target_items w i"
proof
  assume "x \<in> target_items w i"
  with target_items_dom [OF assms(2)] obtain c' where
    c': "Some c' \<noteq> sel_owner (sel w i)" "x \<in> set (dom_items w c')" by auto
  from dom_ok_unique [OF assms(1) assms(4) c'(2)] assms(3) c'(1) show False by simp
qed

lemma target_items_collected: "target_items w i \<subseteq> collected_items w i"
  by (auto simp: target_items_def collected_items_def split: if_splits)

lemma getClosest_in:
  assumes "dom_ok w" "c \<in> set (conts w i)" "x \<in> set (dom_items w c)"
  shows "getClosest w i x = Some c"
proof -
  from assms(2,3) have "\<exists>c'. c' \<in> set (conts w i) \<and> x \<in> set (dom_items w c')" by blast
  then obtain c' where "find (\<lambda>c. x \<in> set (dom_items w c)) (conts w i) = Some c'"
    by (cases "find (\<lambda>c. x \<in> set (dom_items w c)) (conts w i)") (auto simp: find_None_iff)
  moreover from this have "x \<in> set (dom_items w c')"
    by (auto simp: find_Some_iff)
  ultimately show ?thesis
    using dom_ok_unique [OF assms(1) assms(3)] by (simp add: getClosest_def)
qed

lemma getClosest_Some:
  "getClosest w i x = Some c \<Longrightarrow> c \<in> set (conts w i) \<and> x \<in> set (dom_items w c)"
  by (auto simp: getClosest_def find_Some_iff)

text \<open>Structure is preserved along same_document.\<close>

lemma same_document_dom_ok: "same_document w w' \<Longrightarrow> dom_ok w \<Longrightarrow> dom_ok w'"
  by (simp add: dom_ok_def same_document_def)

lemma same_document_colls_ok: "same_document w w' \<Longrightarrow> colls_ok w \<Longrightarrow> colls_ok w'"
  by (simp add: colls_ok_def same_document_conts same_document_coll) (simp add: same_document_def)

lemma same_document_descendants_ok:
  "same_document w w' \<Longrightarrow> descendants_ok w \<Longrightarrow> descendants_ok w'"
  by (simp add: descendants_ok_def same_document_conts) (simp add: same_document_def)

lemma same_selections_document: "same_selections w w' \<Longrightarrow> same_document w w'"
  by (simp add: same_selections_def)

lemma selection_ok_cong:
  assumes "selection_ok w j" "same_document w w'" "sel w' j = sel w j"
    and "sel_dragitems (sel w j) \<noteq> [] \<longrightarrow> obs w' j = obs w j \<and> draginstance w' = draginstance w"
    and "\<forall>x\<in>set (sel_dragitems (sel w j)). item_state w' x = item_state w x \<and>
           aria_disabled w' x = aria_disabled w x"
  shows "selection_ok w' j"
proof -
  from assms(2) have d: "dom_items w' = dom_items w" "state_attr w' = state_attr w"
    by (simp_all add: same_document_def)
  from assms(2) have c: "conts w' j = conts w j" by (rule same_document_conts)
  from assms(1) show ?thesis
    unfolding selection_ok_def assms(3) d c
    using assms(4,5) by auto
qed

subsection \<open>Selections across instances and eviction\<close>

lemma selection_ok_items_foreign:
  assumes "dom_ok w" "colls_ok w" "selection_ok w j" "j \<noteq> i" "x \<in> set (sel_dragitems (sel w j))"
  shows "x \<notin> collected_items w i"
proof -
  from assms(3,5) obtain owner where o: "sel_owner (sel w j) = Some owner"
    by (cases "sel_owner (sel w j)") (auto simp: selection_ok_def)
  with assms(3,5) have oc: "owner \<in> set (conts w j)" "x \<in> set (dom_items w owner)"
    by (auto simp: selection_ok_def)
  from assms(4) have "i \<noteq> j" by simp
  from foreign_not_collected [OF assms(1,2) oc this] show ?thesis .
qed

lemma selection_ok_empty:
  assumes "sel_dragitems (sel w j) = []" "sel_owner (sel w j) = None"
    and "\<forall>t. sel_droptarget (sel w j) = Some t \<longrightarrow> t \<in> set (conts w j)"
  shows "selection_ok w j"
  using assms by (simp add: selection_ok_def)

lemma selection_ok_droptarget:
  "selection_ok w j \<Longrightarrow> sel_droptarget (sel w j) = Some t \<Longrightarrow> t \<in> set (conts w j)"
  by (simp add: selection_ok_def)

lemma selection_ok_holder:
  "selection_ok w j \<Longrightarrow> sel_dragitems (sel w j) \<noteq> [] \<Longrightarrow> draginstance w = Some j"
  by (simp add: selection_ok_def)

lemma selection_ok_owner_None:
  "selection_ok w j \<Longrightarrow> sel_dragitems (sel w j) = [] \<Longrightarrow> sel_owner (sel w j) = None"
  by (simp add: selection_ok_def)

lemma evict_returns:
  assumes ok: "others_ok w i"
  shows "\<exists>w'. evict i w = (Returns (), w') \<and> same_document w w' \<and>
     sel w' i = sel w i \<and> obs w' i = obs w i \<and>
     (\<forall>j. j \<noteq> i \<longrightarrow> selection_ok w' j \<and> sel_dragitems (sel w' j) = []) \<and>
     (\<forall>x\<in>collected_items w i. item_state w' x = item_state w x \<and>
        aria_disabled w' x = aria_disabled w x) \<and>
     draginstance w' = (if draginstance w = Some i then Some i else None)"
proof -
  from ok have dom: "dom_ok w" and colls: "colls_ok w"
    and sels: "\<And>j. j \<noteq> i \<Longrightarrow> selection_ok w j"
    and holder: "\<And>d. draginstance w = Some d \<Longrightarrow> d \<noteq> i \<Longrightarrow> sel_dragitems (sel w d) \<noteq> []"
    by (simp_all add: others_ok_def)
  have empty: "sel_dragitems (sel w j) = []" if "j \<noteq> i" "draginstance w \<noteq> Some j" for j
    using sels [OF that(1)] that(2) selection_ok_holder by blast
  show ?thesis
  proof (cases "\<exists>d. draginstance w = Some d \<and> d \<noteq> i")
    case False
    then have ev: "evict i w = (Returns (), w)"
      by (auto simp: evict_def split: option.splits)
    from False have "\<And>j. j \<noteq> i \<Longrightarrow> draginstance w \<noteq> Some j" by auto
    with empty have "\<And>j. j \<noteq> i \<Longrightarrow> sel_dragitems (sel w j) = []" by blast
    moreover from False have "draginstance w = (if draginstance w = Some i then Some i else None)"
      by (cases "draginstance w") auto
    ultimately show ?thesis using ev sels by auto
  next
    case True
    then obtain d where d: "draginstance w = Some d" "d \<noteq> i" by blast
    let ?w1 = "clearDragValid d w"
    have s1: "same_selections w ?w1" by (rule clearDragValid_same)
    then have doc1: "same_document w ?w1" by (rule same_selections_document)
    have sel1: "\<And>j. sel ?w1 j = sel w j" using s1 by (rule same_selections_sel)
    have obs1: "\<And>j. obs ?w1 j = obs w j" using s1 by (rule same_selections_obs)
    from holder [OF d] have items: "sel_dragitems (sel w d) \<noteq> []" .
    from sels [OF d(2)] have okd: "selection_ok w d" .
    with items obtain od where od: "sel_owner (sel w d) = Some od"
      by (cases "sel_owner (sel w d)") (auto simp: selection_ok_def)
    with okd have odc: "od \<in> set (conts w d)"
      and in_od: "\<And>x. x \<in> set (sel_dragitems (sel w d)) \<Longrightarrow> x \<in> set (dom_items w od)"
      by (auto simp: selection_ok_def)
    from colls_ok_entry [OF colls odc] obtain e where e: "coll w d od = Some e" by blast
    with doc1 have e1: "coll ?w1 d od = Some e" by (simp add: same_document_coll)
    have ev: "evict i w = clearSelections d None ?w1"
      using d od e1 by (simp add: evict_def Let_def sel1)
    have n1: "sel_dragitems (sel ?w1 d) \<noteq> []" using items by (simp add: sel1)
    have t1: "(case None of None \<Rightarrow> sel_owner (sel ?w1 d) | Some c \<Rightarrow> Some c) = Some od"
      using od by (simp add: sel1)
    have c1: "\<forall>x\<in>set (sel_dragitems (sel ?w1 d)). getClosest ?w1 d x \<noteq> None"
      using in_od getClosest_in [OF dom odc] doc1
      by (simp add: sel1 same_document_getClosest)
    from clearSelections_returns [OF n1 t1 c1] obtain w' where
      w': "clearSelections d None ?w1 = (Returns (), w')" "same_document ?w1 w'"
        "sel_dragitems (sel w' d) = []" "sel_owner (sel w' d) = None"
        "sel_droptarget (sel w' d) = sel_droptarget (sel ?w1 d)"
        "\<forall>j. j \<noteq> d \<longrightarrow> sel w' j = sel ?w1 j \<and> obs w' j = obs ?w1 j"
        "draginstance w' = None"
        "\<forall>y. y \<notin> set (sel_dragitems (sel ?w1 d)) \<longrightarrow> item_state w' y = item_state ?w1 y"
        "aria_disabled w' = aria_disabled ?w1"
      by blast
    have doc: "same_document w w'" using doc1 w'(2) by (rule same_document_trans)
    have conts: "\<And>j. conts w' j = conts w j" using doc by (rule same_document_conts)
    have seli: "sel w' i = sel w i" "obs w' i = obs w i"
      using w'(6) d(2) by (simp_all add: sel1 obs1)
    have others: "selection_ok w' j \<and> sel_dragitems (sel w' j) = []" if j: "j \<noteq> i" for j
    proof (cases "j = d")
      case True
      have "\<forall>t. sel_droptarget (sel w' d) = Some t \<longrightarrow> t \<in> set (conts w' d)"
        using w'(5) okd by (simp add: sel1 conts selection_ok_def)
      with w'(3,4) True show ?thesis by (simp add: selection_ok_empty)
    next
      case False
      with d have "draginstance w \<noteq> Some j" by simp
      from empty [OF j this] have ej: "sel_dragitems (sel w j) = []" .
      from w'(6) False have sj: "sel w' j = sel w j" by (simp add: sel1)
      from sels [OF j] ej have "sel_owner (sel w j) = None"
        "\<forall>t. sel_droptarget (sel w j) = Some t \<longrightarrow> t \<in> set (conts w j)"
        by (simp_all add: selection_ok_def)
      with ej sj show ?thesis by (simp add: selection_ok_empty conts)
    qed
    have frame: "item_state w' x = item_state w x \<and> aria_disabled w' x = aria_disabled w x"
      if x: "x \<in> collected_items w i" for x
    proof -
      have "x \<notin> set (sel_dragitems (sel w d))"
        using selection_ok_items_foreign [OF dom colls okd d(2)] x by blast
      with w'(8) s1 have 1: "item_state w' x = item_state w x"
        by (simp add: sel1 same_selections_def)
      have "x \<notin> collected_items w d"
      proof -
        from x collected_items_dom [OF colls] obtain c where
          "c \<in> set (conts w i)" "x \<in> set (dom_items w c)" by auto
        from foreign_not_collected [OF dom colls this] d(2) show ?thesis by blast
      qed
      then have "aria_disabled ?w1 x = aria_disabled w x" by (rule clearDragValid_uncollected)
      with w'(9) 1 show ?thesis by simp
    qed
    from ev w'(1) doc seli others frame w'(7) d show ?thesis by auto
  qed
qed

subsection \<open>Adding one item to a selection\<close>

lemma same_document_collected: "same_document w w' \<Longrightarrow> collected_items w' i = collected_items w i"
  by (simp add: collected_items_def same_document_def)

lemma others_ok_cong:
  assumes ok: "others_ok w i" and doc: "same_document w w'"
    and sels: "\<forall>j. j \<noteq> i \<longrightarrow> sel w' j = sel w j \<and> obs w' j = obs w j"
    and drag: "draginstance w' = draginstance w"
    and frame: "\<forall>x. x \<notin> collected_items w i \<longrightarrow>
       item_state w' x = item_state w x \<and> aria_disabled w' x = aria_disabled w x"
  shows "others_ok w' i"
proof -
  from ok have dom: "dom_ok w" and colls: "colls_ok w" and desc: "descendants_ok w"
    and okj: "\<And>j. j \<noteq> i \<Longrightarrow> selection_ok w j"
    and holder: "\<And>d. draginstance w = Some d \<Longrightarrow> d \<noteq> i \<Longrightarrow> sel_dragitems (sel w d) \<noteq> []"
    by (simp_all add: others_ok_def)
  have "selection_ok w' j" if j: "j \<noteq> i" for j
  proof (rule selection_ok_cong [OF okj [OF j] doc])
    show "sel w' j = sel w j" using sels j by simp
    show "sel_dragitems (sel w j) \<noteq> [] \<longrightarrow> obs w' j = obs w j \<and> draginstance w' = draginstance w"
      using sels j drag by simp
    show "\<forall>x\<in>set (sel_dragitems (sel w j)). item_state w' x = item_state w x \<and>
           aria_disabled w' x = aria_disabled w x"
      using selection_ok_items_foreign [OF dom colls okj [OF j] j] frame by blast
  qed
  moreover have "\<forall>d. draginstance w' = Some d \<longrightarrow> d \<noteq> i \<longrightarrow> sel_dragitems (sel w' d) \<noteq> []"
    using holder sels drag by auto
  ultimately show ?thesis
    using same_document_dom_ok [OF doc dom] same_document_colls_ok [OF doc colls]
      same_document_descendants_ok [OF doc desc]
    by (simp add: others_ok_def)
qed

lemma dom_in_collected:
  "colls_ok w \<Longrightarrow> c \<in> set (conts w i) \<Longrightarrow> x \<in> set (dom_items w c) \<Longrightarrow> x \<in> collected_items w i"
  by (auto simp: collected_items_dom)

lemma addSelection_disabled:
  "aria_disabled w x \<Longrightarrow> addSelection i x c w = (Returns (), w)"
  by (simp add: addSelection_def)

lemma addSelection_returns:
  assumes ok: "others_ok w i" and add: "adding_ok w i c"
    and x: "x \<in> set (dom_items w c)" "x \<notin> set (sel_dragitems (sel w i))"
  shows "\<exists>w'. addSelection i x c w = (Returns (), w') \<and> others_ok w' i \<and> adding_ok w' i c \<and>
     same_document w w' \<and>
     sel_dragitems (sel w' i) = sel_dragitems (sel w i) @ (if aria_disabled w x then [] else [x]) \<and>
     sel_owner (sel w' i) = (if aria_disabled w x then sel_owner (sel w i) else Some c) \<and>
     sel_droptarget (sel w' i) = sel_droptarget (sel w i) \<and>
     draginstance w' = (if aria_disabled w x then draginstance w else Some i) \<and>
     (\<forall>y\<in>collected_items w i. aria_disabled w' y = aria_disabled w y) \<and>
     (\<not> aria_disabled w x \<longrightarrow> (\<forall>j. j \<noteq> i \<longrightarrow> sel_dragitems (sel w' j) = [])) \<and>
     (aria_disabled w x \<longrightarrow> w' = w)"
proof (cases "aria_disabled w x")
  case True
  with ok add show ?thesis by (simp add: addSelection_disabled)
next
  case False
  from ok have dom: "dom_ok w" and colls: "colls_ok w" and desc: "descendants_ok w"
    by (simp_all add: others_ok_def)
  from add have c: "c \<in> set (conts w i)"
    and owner: "sel_owner (sel w i) = None \<or> sel_owner (sel w i) = Some c"
    and dist: "distinct (sel_dragitems (sel w i))"
    and items: "\<And>y. y \<in> set (sel_dragitems (sel w i)) \<Longrightarrow>
         y \<in> set (dom_items w c) \<and> item_state w y (state_attr w c) = Some ''true'' \<and>
         \<not> aria_disabled w y"
    and dt: "\<forall>t. sel_droptarget (sel w i) = Some t \<longrightarrow> t \<in> set (conts w i)"
    by (simp_all add: adding_ok_def)
  from colls_ok_entry [OF colls c] obtain e where e: "coll w i c = Some e" by blast
  let ?w1 = "set_sel i (\<lambda>s. s\<lparr>sel_owner := Some c\<rparr>) w"
  let ?w2 = "?w1\<lparr>item_state := (item_state ?w1)
                       (x := (item_state ?w1 x)(state_attr ?w1 c \<mapsto> ''true''))\<rparr>"
  let ?w3 = "set_sel i (\<lambda>s. s\<lparr>sel_dragitems := sel_dragitems s @ [x]\<rparr>) ?w2"
  let ?w4 = "set_sel i (\<lambda>s. s\<lparr>sel_nodesort := True\<rparr>) ?w3"
  let ?w5 = "set_observing i False ?w4"
  have doc5: "same_document w ?w5" by (simp add: same_document_def)
  have sel5: "sel_dragitems (sel ?w5 i) = sel_dragitems (sel w i) @ [x]"
    "sel_owner (sel ?w5 i) = Some c" "sel_droptarget (sel ?w5 i) = sel_droptarget (sel w i)"
    "sel_nodesort (sel ?w5 i)" "obs ?w5 i = False"
    by simp_all
  have others5: "\<forall>j. j \<noteq> i \<longrightarrow> sel ?w5 j = sel w j \<and> obs ?w5 j = obs w j" by simp
  have st5: "item_state ?w5 = (item_state w)(x := (item_state w x)(state_attr w c \<mapsto> ''true''))"
    "aria_disabled ?w5 = aria_disabled w" "draginstance ?w5 = draginstance w"
    by simp_all
  have xin: "x \<in> collected_items w i" using dom_in_collected [OF colls c x(1)] .
  have ok5: "others_ok ?w5 i"
  proof (rule others_ok_cong [OF ok doc5 others5])
    show "draginstance ?w5 = draginstance w" by simp
    show "\<forall>y. y \<notin> collected_items w i \<longrightarrow>
       item_state ?w5 y = item_state w y \<and> aria_disabled ?w5 y = aria_disabled w y"
      using xin by (auto simp: st5)
  qed
  from evict_returns [OF ok5] obtain w6 where
    w6: "evict i ?w5 = (Returns (), w6)" "same_document ?w5 w6"
      "sel w6 i = sel ?w5 i" "obs w6 i = obs ?w5 i"
      "\<forall>j. j \<noteq> i \<longrightarrow> selection_ok w6 j \<and> sel_dragitems (sel w6 j) = []"
      "\<forall>y\<in>collected_items ?w5 i. item_state w6 y = item_state ?w5 y \<and>
        aria_disabled w6 y = aria_disabled ?w5 y"
    by blast
  let ?w' = "w6\<lparr>draginstance := Some i\<rparr>"
  have res: "addSelection i x c w = (Returns (), ?w')"
    using False owner e w6(1) by (auto simp: addSelection_def Let_def)
  have doc6: "same_document w w6" using doc5 w6(2) by (rule same_document_trans)
  have doc: "same_document w ?w'" using doc6 by (simp add: same_document_def)
  have coll5: "collected_items ?w5 i = collected_items w i"
    using doc5 by (rule same_document_collected)
  have conts': "\<And>j. conts ?w' j = conts w j" using doc by (rule same_document_conts)
  have dom': "dom_items ?w' = dom_items w" "state_attr ?w' = state_attr w"
    using doc by (simp_all add: same_document_def)
  have sel': "sel ?w' i = sel ?w5 i" using w6(3) by simp
  have ok': "others_ok ?w' i"
  proof -
    have "selection_ok ?w' j" if j: "j \<noteq> i" for j
    proof -
      from w6(5) j have okj: "selection_ok w6 j" and ej: "sel_dragitems (sel w6 j) = []" by auto
      have "same_document w6 ?w'" by (simp add: same_document_def)
      from selection_ok_cong [OF okj this] ej show ?thesis by simp
    qed
    then show ?thesis
      using same_document_dom_ok [OF doc dom] same_document_colls_ok [OF doc colls]
        same_document_descendants_ok [OF doc desc]
      by (simp add: others_ok_def)
  qed
  have frame: "aria_disabled ?w' y = aria_disabled w y \<and> item_state ?w' y = item_state ?w5 y"
    if "y \<in> collected_items w i" for y
    using w6(6) that coll5 st5(2) by simp
  have add': "adding_ok ?w' i c"
    unfolding adding_ok_def conts' dom' sel'
  proof (intro conjI)
    show "c \<in> set (conts w i)" by (rule c)
    show "sel_owner (sel ?w5 i) = None \<or> sel_owner (sel ?w5 i) = Some c" by simp
    show "distinct (sel_dragitems (sel ?w5 i))" using dist x(2) by simp
    show "\<forall>y\<in>set (sel_dragitems (sel ?w5 i)).
       y \<in> set (dom_items w c) \<and> item_state ?w' y (state_attr w c) = Some ''true'' \<and>
       \<not> aria_disabled ?w' y"
    proof
      fix y assume "y \<in> set (sel_dragitems (sel ?w5 i))"
      then have y: "y = x \<or> y \<in> set (sel_dragitems (sel w i))" by auto
      with x(1) items have yd: "y \<in> set (dom_items w c)" by auto
      from frame [OF dom_in_collected [OF colls c yd]]
      have f: "aria_disabled ?w' y = aria_disabled w y" "item_state ?w' y = item_state ?w5 y"
        by simp_all
      from y items False have "\<not> aria_disabled w y" by auto
      moreover from y items have "item_state ?w5 y (state_attr w c) = Some ''true''"
        by (auto simp: st5)
      ultimately show "y \<in> set (dom_items w c) \<and>
         item_state ?w' y (state_attr w c) = Some ''true'' \<and> \<not> aria_disabled ?w' y"
        using yd f by simp
    qed
    show "\<forall>t. sel_droptarget (sel ?w5 i) = Some t \<longrightarrow> t \<in> set (conts w i)"
      using dt by simp
    show "sel_dragitems (sel ?w5 i) \<noteq> [] \<longrightarrow>
       sel_owner (sel ?w5 i) = Some c \<and> sel_nodesort (sel ?w5 i) \<and> \<not> obs ?w' i \<and>
       draginstance ?w' = Some i"
      using w6(4) sel5(5) by simp
  qed
  have "\<forall>j. j \<noteq> i \<longrightarrow> sel_dragitems (sel ?w' j) = []" using w6(5) by simp
  with res ok' add' doc sel' sel5 frame False show ?thesis by auto
qed

subsection \<open>Adding several items; the invariant from its parts\<close>



text \<open>Characterisations of inv.\<close>

lemma inv_others: "inv w \<Longrightarrow> others_ok w i"
  by (simp add: inv_def others_ok_def arbiter_ok_def)

lemma inv_selection_ok: "inv w \<Longrightarrow> selection_ok w i"
  by (simp add: inv_def)

lemma inv_adding:
  assumes "inv w" "c \<in> set (conts w i)" "sel_owner (sel w i) = None \<or> sel_owner (sel w i) = Some c"
  shows "adding_ok w i c"
proof -
  from assms(1) have s: "selection_ok w i" by (rule inv_selection_ok)
  show ?thesis
  proof (cases "sel_owner (sel w i)")
    case None
    with s have "sel_dragitems (sel w i) = []" by (simp add: selection_ok_def)
    with s None assms(2) show ?thesis by (simp add: adding_ok_def selection_ok_def)
  next
    case (Some o')
    with assms(3) have "sel_owner (sel w i) = Some c" by simp
    with s assms(2) show ?thesis by (auto simp: adding_ok_def selection_ok_def)
  qed
qed

lemma adding_inv:
  assumes ok: "others_ok w i" and add: "adding_ok w i c"
    and owner: "sel_dragitems (sel w i) = [] \<longrightarrow> sel_owner (sel w i) = None"
    and holder: "draginstance w = Some i \<longrightarrow> sel_dragitems (sel w i) \<noteq> []"
  shows "inv w"
proof -
  have "selection_ok w i"
    using add owner unfolding adding_ok_def selection_ok_def by auto
  with ok have "\<forall>j. selection_ok w j" unfolding others_ok_def by metis
  moreover have "arbiter_ok w"
    using ok holder unfolding others_ok_def arbiter_ok_def by metis
  ultimately show ?thesis using ok by (simp add: inv_def others_ok_def)
qed

lemma inv_same_selections:
  assumes "inv w" "same_selections w w'"
    and "\<forall>j. \<forall>x\<in>set (sel_dragitems (sel w j)). aria_disabled w' x = aria_disabled w x"
  shows "inv w'"
proof -
  from assms(2) have doc: "same_document w w'" by (rule same_selections_document)
  have s: "\<And>j. sel w' j = sel w j" using assms(2) by (rule same_selections_sel)
  have o: "\<And>j. obs w' j = obs w j" using assms(2) by (rule same_selections_obs)
  from assms(2) have d: "draginstance w' = draginstance w" "item_state w' = item_state w"
    by (simp_all add: same_selections_def)
  have "selection_ok w' j" for j
    by (rule selection_ok_cong [OF inv_selection_ok [OF assms(1)] doc]) (use s o d assms(3) in auto)
  moreover have "arbiter_ok w'" using assms(1) by (simp add: inv_def arbiter_ok_def s d)
  ultimately show ?thesis
    using assms(1) same_document_dom_ok [OF doc] same_document_colls_ok [OF doc]
      same_document_descendants_ok [OF doc]
    by (simp add: inv_def)
qed

lemma inv_selected_not_target:
  assumes "inv w" "x \<in> set (sel_dragitems (sel w j))"
  shows "x \<notin> target_items w i"
proof (cases "j = i")
  case True
  from assms(1) have s: "selection_ok w i" by (rule inv_selection_ok)
  with assms(2) True obtain owner where o: "sel_owner (sel w i) = Some owner"
    by (cases "sel_owner (sel w i)") (auto simp: selection_ok_def)
  with s assms(2) True have "x \<in> set (dom_items w owner)" by (auto simp: selection_ok_def)
  with owner_not_target [OF _ _ o] assms(1) show ?thesis by (simp add: inv_def)
next
  case False
  from assms(1) have "dom_ok w" "colls_ok w" "selection_ok w j" by (simp_all add: inv_def)
  from selection_ok_items_foreign [OF this False assms(2)] target_items_collected
  show ?thesis by blast
qed

lemma clearDragValid_inv:
  assumes "inv w"
  shows "inv (clearDragValid i w)"
proof (cases "sel_dragitems (sel w i) = []")
  case True
  with assms show ?thesis by (simp add: clearDragValid_def)
next
  case False
  with inv_selection_ok [OF assms, of i] have n: "sel_nodesort (sel w i)"
    by (simp add: selection_ok_def)
  show ?thesis
  proof (rule inv_same_selections [OF assms clearDragValid_same], intro allI ballI)
    fix j x assume "x \<in> set (sel_dragitems (sel w j))"
    from inv_selected_not_target [OF assms this] have "x \<notin> target_items w i" .
    with n show "aria_disabled (clearDragValid i w) x = aria_disabled w x"
      by (rule clearDragValid_other)
  qed
qed

lemma addDragValid_if_selected_inv:
  assumes "inv w"
  shows "\<exists>w'. addDragValid_if_selected i w = (Returns (), w') \<and> inv w' \<and> same_selections w w'"
proof -
  from inv_selection_ok [OF assms, of i]
  have "sel_dragitems (sel w i) \<noteq> [] \<longrightarrow> sel_owner (sel w i) \<noteq> None"
    by (simp add: selection_ok_def)
  from addDragValid_if_selected_returns [OF this] obtain w' where
    w': "addDragValid_if_selected i w = (Returns (), w')" "same_selections w w'"
      "\<forall>y. y \<notin> target_items w i \<longrightarrow> aria_disabled w' y = aria_disabled w y" by blast
  have "inv w'"
  proof (rule inv_same_selections [OF assms w'(2)], intro allI ballI)
    fix j x assume "x \<in> set (sel_dragitems (sel w j))"
    from inv_selected_not_target [OF assms this] w'(3)
    show "aria_disabled w' x = aria_disabled w x" by blast
  qed
  with w' show ?thesis by blast
qed

subsection \<open>Index arithmetic of the range selection\<close>








lemma others_ok_cong2:
  assumes ok: "others_ok w i" and doc: "same_document w w'"
    and sels: "\<forall>j. j \<noteq> i \<longrightarrow> sel w' j = sel w j \<and> obs w' j = obs w j"
    and drag: "\<forall>d. d \<noteq> i \<longrightarrow> (draginstance w' = Some d \<longleftrightarrow> draginstance w = Some d)"
    and frame: "\<forall>x. x \<notin> collected_items w i \<longrightarrow>
       item_state w' x = item_state w x \<and> aria_disabled w' x = aria_disabled w x"
  shows "others_ok w' i"
proof -
  from ok have dom: "dom_ok w" and colls: "colls_ok w" and desc: "descendants_ok w"
    and okj: "\<And>j. j \<noteq> i \<Longrightarrow> selection_ok w j"
    and holder: "\<And>d. draginstance w = Some d \<Longrightarrow> d \<noteq> i \<Longrightarrow> sel_dragitems (sel w d) \<noteq> []"
    by (simp_all add: others_ok_def)
  have "selection_ok w' j" if j: "j \<noteq> i" for j
  proof (rule selection_ok_cong [OF okj [OF j] doc])
    show "sel w' j = sel w j" using sels j by simp
    show "sel_dragitems (sel w j) \<noteq> [] \<longrightarrow> obs w' j = obs w j \<and> draginstance w' = draginstance w"
    proof
      assume "sel_dragitems (sel w j) \<noteq> []"
      with okj [OF j] have "draginstance w = Some j" by (rule selection_ok_holder)
      with drag j sels show "obs w' j = obs w j \<and> draginstance w' = draginstance w" by simp
    qed
    show "\<forall>x\<in>set (sel_dragitems (sel w j)). item_state w' x = item_state w x \<and>
           aria_disabled w' x = aria_disabled w x"
      using selection_ok_items_foreign [OF dom colls okj [OF j] j] frame by blast
  qed
  moreover have "\<forall>d. draginstance w' = Some d \<longrightarrow> d \<noteq> i \<longrightarrow> sel_dragitems (sel w' d) \<noteq> []"
    using holder sels drag by auto
  ultimately show ?thesis
    using same_document_dom_ok [OF doc dom] same_document_colls_ok [OF doc colls]
      same_document_descendants_ok [OF doc desc]
    by (simp add: others_ok_def)
qed

lemma others_inv:
  assumes "others_ok w i" "selection_ok w i"
    "draginstance w = Some i \<longrightarrow> sel_dragitems (sel w i) \<noteq> []"
  shows "inv w"
proof -
  from assms(1,2) have "\<forall>j. selection_ok w j" unfolding others_ok_def by metis
  moreover have "arbiter_ok w"
    using assms(1,3) unfolding others_ok_def arbiter_ok_def by metis
  ultimately show ?thesis using assms(1) by (simp add: inv_def others_ok_def)
qed

lemma inv_holder_items:
  "inv w \<Longrightarrow> draginstance w = Some d \<Longrightarrow> sel_dragitems (sel w d) \<noteq> []"
  by (simp add: inv_def arbiter_ok_def)

lemma inv_owner_in:
  assumes "inv w" "sel_owner (sel w i) = Some c"
  shows "c \<in> set (conts w i) \<and> sel_dragitems (sel w i) \<noteq> [] \<and>
     (\<forall>x\<in>set (sel_dragitems (sel w i)). x \<in> set (dom_items w c))"
  using inv_selection_ok [OF assms(1), of i] assms(2) by (auto simp: selection_ok_def)

lemma clear_instance:
  assumes "inv w"
  shows "\<exists>w'. clearSelections i None (clearDragValid i w) = (Returns (), w') \<and> inv w' \<and>
     same_document w w' \<and> sel_dragitems (sel w' i) = [] \<and> sel_owner (sel w' i) = None \<and>
     sel_droptarget (sel w' i) = sel_droptarget (sel w i) \<and>
     (\<forall>j. j \<noteq> i \<longrightarrow> sel w' j = sel w j) \<and>
     draginstance w' = (if sel_dragitems (sel w i) = [] then draginstance w else None) \<and>
     (\<forall>y. y \<notin> target_items w i \<longrightarrow> aria_disabled w' y = aria_disabled w y) \<and>
     (sel_dragitems (sel w i) = [] \<longrightarrow> w' = w)"
proof (cases "sel_dragitems (sel w i) = []")
  case True
  then have "clearSelections i None (clearDragValid i w) = (Returns (), w)"
    by (simp add: clearDragValid_def clearSelections_empty)
  with True assms inv_selection_ok [OF assms, of i] show ?thesis
    by (simp add: selection_ok_def)
next
  case False
  let ?w1 = "clearDragValid i w"
  have inv1: "inv ?w1" using assms by (rule clearDragValid_inv)
  have s1: "same_selections w ?w1" by (rule clearDragValid_same)
  then have doc1: "same_document w ?w1" by (rule same_selections_document)
  have sel1: "\<And>j. sel ?w1 j = sel w j" using s1 by (rule same_selections_sel)
  from inv_selection_ok [OF assms, of i] False obtain c where
    c: "sel_owner (sel w i) = Some c" and n: "sel_nodesort (sel w i)"
    and h: "draginstance w = Some i"
    by (cases "sel_owner (sel w i)") (auto simp: selection_ok_def)
  from inv_owner_in [OF assms c] have cin: "c \<in> set (conts w i)"
    and items: "\<forall>x\<in>set (sel_dragitems (sel w i)). x \<in> set (dom_items w c)" by auto
  from assms have dom: "dom_ok w" by (simp add: inv_def)
  have n1: "sel_dragitems (sel ?w1 i) \<noteq> []" using False by (simp add: sel1)
  have t1: "(case None of None \<Rightarrow> sel_owner (sel ?w1 i) | Some c \<Rightarrow> Some c) = Some c"
    using c by (simp add: sel1)
  have c1: "\<forall>x\<in>set (sel_dragitems (sel ?w1 i)). getClosest ?w1 i x \<noteq> None"
    using items getClosest_in [OF dom cin] doc1 by (simp add: sel1 same_document_getClosest)
  from clearSelections_returns [OF n1 t1 c1] obtain w' where
    w': "clearSelections i None ?w1 = (Returns (), w')" "same_document ?w1 w'"
      "sel_dragitems (sel w' i) = []" "sel_owner (sel w' i) = None"
      "sel_droptarget (sel w' i) = sel_droptarget (sel ?w1 i)"
      "\<forall>j. j \<noteq> i \<longrightarrow> sel w' j = sel ?w1 j \<and> obs w' j = obs ?w1 j"
      "draginstance w' = None"
      "\<forall>y. y \<notin> set (sel_dragitems (sel ?w1 i)) \<longrightarrow> item_state w' y = item_state ?w1 y"
      "aria_disabled w' = aria_disabled ?w1"
    by blast
  have doc: "same_document w w'" using doc1 w'(2) by (rule same_document_trans)
  have ok': "others_ok w' i"
  proof (rule others_ok_cong2 [OF inv_others [OF inv1] w'(2)])
    show "\<forall>j. j \<noteq> i \<longrightarrow> sel w' j = sel ?w1 j \<and> obs w' j = obs ?w1 j" by (rule w'(6))
    show "\<forall>d. d \<noteq> i \<longrightarrow> (draginstance w' = Some d \<longleftrightarrow> draginstance ?w1 = Some d)"
      using w'(7) h s1 by (simp add: same_selections_def)
    show "\<forall>x. x \<notin> collected_items ?w1 i \<longrightarrow>
       item_state w' x = item_state ?w1 x \<and> aria_disabled w' x = aria_disabled ?w1 x"
    proof (intro allI impI)
      fix x assume "x \<notin> collected_items ?w1 i"
      then have "x \<notin> collected_items w i" by (simp add: same_document_collected [OF doc1])
      moreover from assms have "colls_ok w" by (simp add: inv_def)
      ultimately have "x \<notin> set (dom_items w c)" using dom_in_collected cin by blast
      with items have "x \<notin> set (sel_dragitems (sel ?w1 i))" by (auto simp: sel1)
      with w'(8,9) show "item_state w' x = item_state ?w1 x \<and>
         aria_disabled w' x = aria_disabled ?w1 x" by simp
    qed
  qed
  have "selection_ok w' i"
  proof (rule selection_ok_empty [OF w'(3,4)])
    show "\<forall>t. sel_droptarget (sel w' i) = Some t \<longrightarrow> t \<in> set (conts w' i)"
      using w'(5) inv_selection_ok [OF assms, of i]
      by (simp add: sel1 same_document_conts [OF doc] selection_ok_def)
  qed
  from others_inv [OF ok' this] w'(7) have inv': "inv w'" by simp
  have "\<forall>y. y \<notin> target_items w i \<longrightarrow> aria_disabled w' y = aria_disabled w y"
    using w'(9) clearDragValid_other [OF n] by simp
  with w' inv' doc False show ?thesis by (simp add: sel1)
qed

subsection \<open>The exclusive selection mode\<close>

lemma and_then_done_with [simp]: "and_then (done_with f) g w = g (f w)"
  by (simp add: and_then_def)

lemma inv_not_selected:
  assumes "inv w" "sel_owner (sel w i) = None \<or> sel_owner (sel w i) = Some c"
    "item_state w x (state_attr w c) \<noteq> Some ''true''"
  shows "x \<notin> set (sel_dragitems (sel w i))"
proof
  assume x: "x \<in> set (sel_dragitems (sel w i))"
  with inv_selection_ok [OF assms(1), of i] obtain owner where
    "sel_owner (sel w i) = Some owner" "item_state w x (state_attr w owner) = Some ''true''"
    by (cases "sel_owner (sel w i)") (auto simp: selection_ok_def)
  with assms(2,3) show False by auto
qed

lemma add_one_inv:
  assumes i: "inv w" and c: "c \<in> set (conts w i)" and x: "x \<in> set (dom_items w c)"
    and owner: "sel_owner (sel w i) = None \<or> sel_owner (sel w i) = Some c"
    and new: "x \<notin> set (sel_dragitems (sel w i))"
  shows "\<exists>w'. addSelection i x c w = (Returns (), w') \<and> inv w' \<and> same_document w w' \<and>
     sel_dragitems (sel w' i) = sel_dragitems (sel w i) @ (if aria_disabled w x then [] else [x]) \<and>
     sel_owner (sel w' i) = (if aria_disabled w x then sel_owner (sel w i) else Some c) \<and>
     sel_droptarget (sel w' i) = sel_droptarget (sel w i) \<and>
     (\<forall>y\<in>collected_items w i. aria_disabled w' y = aria_disabled w y)"
proof -
  from addSelection_returns [OF inv_others [OF i] inv_adding [OF i c owner] x new]
  obtain w' where
    w': "addSelection i x c w = (Returns (), w')" "others_ok w' i" "adding_ok w' i c"
      "same_document w w'"
      "sel_dragitems (sel w' i) = sel_dragitems (sel w i) @ (if aria_disabled w x then [] else [x])"
      "sel_owner (sel w' i) = (if aria_disabled w x then sel_owner (sel w i) else Some c)"
      "sel_droptarget (sel w' i) = sel_droptarget (sel w i)"
      "draginstance w' = (if aria_disabled w x then draginstance w else Some i)"
      "\<forall>y\<in>collected_items w i. aria_disabled w' y = aria_disabled w y"
      "aria_disabled w x \<longrightarrow> w' = w"
    by blast
  have "inv w'"
  proof (cases "aria_disabled w x")
    case True
    with w'(10) i show ?thesis by simp
  next
    case False
    with w'(5) have "sel_dragitems (sel w' i) \<noteq> []" by simp
    with adding_inv [OF w'(2,3)] show ?thesis by simp
  qed
  with w' show ?thesis by blast
qed

lemma doSelectionThing_exclusive:
  assumes i: "inv w" and c: "c \<in> set (conts w i)" and x: "x \<in> set (dom_items w c)"
    and owner: "sel_owner (sel w i) = None \<or> sel_owner (sel w i) = Some c"
    and m: "m \<noteq> 1" "m \<noteq> 2"
  shows "\<exists>w'. doSelectionThing i c x m w = (Returns (), w') \<and> inv w' \<and> same_document w w' \<and>
     sel_dragitems (sel w' i) =
       (if sel_dragitems (sel w i) = [x] \<or> aria_disabled w x then [] else [x]) \<and>
     sel_owner (sel w' i) =
       (if sel_dragitems (sel w i) = [x] \<or> aria_disabled w x then None else Some c) \<and>
     sel_droptarget (sel w' i) = sel_droptarget (sel w i)"
proof -
  let ?single = "length (sel_dragitems (sel w i)) = 1 \<and> x \<in> set (sel_dragitems (sel w i))"
  have single: "?single \<longleftrightarrow> sel_dragitems (sel w i) = [x]"
    by (cases "sel_dragitems (sel w i)") auto
  from clear_instance [OF i, of i] obtain w1 where
    w1: "clearSelections i None (clearDragValid i w) = (Returns (), w1)" "inv w1"
      "same_document w w1" "sel_dragitems (sel w1 i) = []" "sel_owner (sel w1 i) = None"
      "sel_droptarget (sel w1 i) = sel_droptarget (sel w i)"
      "\<forall>y. y \<notin> target_items w i \<longrightarrow> aria_disabled w1 y = aria_disabled w y"
      "sel_dragitems (sel w i) = [] \<longrightarrow> w1 = w"
    by blast
  have unfold: "doSelectionThing i c x m w =
      (if \<not> ?single then and_then (addSelection i x c) (addDragValid_if_selected i) w1
       else (Returns (), w1))"
    using m w1(1) by (simp add: doSelectionThing_def Let_def and_then_returns)
  show ?thesis
  proof (cases "sel_dragitems (sel w i) = [x]")
    case True
    with unfold single w1 show ?thesis by simp
  next
    case False
    have dis: "aria_disabled w1 x = aria_disabled w x"
    proof (cases "sel_owner (sel w i)")
      case None
      with inv_selection_ok [OF i, of i] have "sel_dragitems (sel w i) = []"
        by (simp add: selection_ok_def)
      with w1(8) show ?thesis by simp
    next
      case (Some o')
      with owner have o: "sel_owner (sel w i) = Some c" by simp
      from i have "dom_ok w" "colls_ok w" by (simp_all add: inv_def)
      from owner_not_target [OF this o x] w1(7) show ?thesis by blast
    qed
    have c1: "c \<in> set (conts w1 i)" using c by (simp add: same_document_conts [OF w1(3)])
    have x1: "x \<in> set (dom_items w1 c)" using x w1(3) by (simp add: same_document_def)
    from add_one_inv [OF w1(2) c1 x1] w1(4,5) obtain w2 where
      w2: "addSelection i x c w1 = (Returns (), w2)" "inv w2" "same_document w1 w2"
        "sel_dragitems (sel w2 i) = (if aria_disabled w1 x then [] else [x])"
        "sel_owner (sel w2 i) = (if aria_disabled w1 x then None else Some c)"
        "sel_droptarget (sel w2 i) = sel_droptarget (sel w1 i)"
      by auto
    from addDragValid_if_selected_inv [OF w2(2), of i] obtain w3 where
      w3: "addDragValid_if_selected i w2 = (Returns (), w3)" "inv w3" "same_selections w2 w3"
      by blast
    have s3: "sel w3 i = sel w2 i" using w3(3) by (rule same_selections_sel)
    have "same_document w w3"
      using w1(3) w2(3) same_selections_document [OF w3(3)] by (blast intro: same_document_trans)
    moreover have "doSelectionThing i c x m w = (Returns (), w3)"
      using unfold single False w2(1) w3(1) by (simp add: and_then_returns)
    ultimately show ?thesis using w3(2) w2(4,5,6) w1(6) False dis by (simp add: s3)
  qed
qed

subsection \<open>The non-contiguous selection mode\<close>

lemma remove_one_inv:
  assumes i: "inv w" and c: "c \<in> set (conts w i)" and x: "x \<in> set (dom_items w c)"
    and owner: "sel_owner (sel w i) = Some c"
  shows "\<exists>w2. removeSelection i x None w = (Returns (), w2) \<and>
     inv (if sel_dragitems (sel w2 i) = [] then set_sel i (\<lambda>s. s\<lparr>sel_owner := None\<rparr>) w2 else w2) \<and>
     same_document w w2 \<and>
     sel_dragitems (sel w2 i) = filter (\<lambda>y. y \<noteq> x) (sel_dragitems (sel w i))"
proof -
  let ?items = "sel_dragitems (sel w i)"
  let ?f = "filter (\<lambda>y. y \<noteq> x) ?items"
  from i have dom: "dom_ok w" and colls: "colls_ok w" by (simp_all add: inv_def)
  have si: "selection_ok w i" using i by (rule inv_selection_ok)
  from inv_owner_in [OF i owner] have ne: "?items \<noteq> []" by simp
  with si have h: "draginstance w = Some i" "sel_nodesort (sel w i)" "\<not> obs w i"
    by (simp_all add: selection_ok_def)
  have t: "(case None of None \<Rightarrow> sel_owner (sel w i) | Some c \<Rightarrow> Some c) = Some c"
    using owner by simp
  have cl: "getClosest w i x \<noteq> None" using getClosest_in [OF dom c x] by simp
  from removeSelection_returns [OF t cl] obtain w2 where
    w2: "removeSelection i x None w = (Returns (), w2)" "same_document w w2"
      "sel w2 i = (sel w i)\<lparr>sel_dragitems := ?f,
         sel_nodesort := (if ?f = [] then True else sel_nodesort (sel w i))\<rparr>"
      "\<forall>j. j \<noteq> i \<longrightarrow> sel w2 j = sel w j \<and> obs w2 j = obs w j"
      "obs w2 i = (if ?f = [] then True else obs w i)"
      "draginstance w2 = (if ?f = [] then None else draginstance w)"
      "item_state w2 = (item_state w)(x := (item_state w x)(state_attr w c \<mapsto> ''false''))"
      "aria_disabled w2 = aria_disabled w"
    by blast
  let ?w3 = "if sel_dragitems (sel w2 i) = [] then set_sel i (\<lambda>s. s\<lparr>sel_owner := None\<rparr>) w2 else w2"
  have doc23: "same_document w2 ?w3" by (simp add: same_document_def)
  have doc3: "same_document w ?w3" using w2(2) doc23 by (rule same_document_trans)
  have conts3: "\<And>j. conts ?w3 j = conts w j" using doc3 by (rule same_document_conts)
  have ok3: "others_ok ?w3 i"
  proof (rule others_ok_cong2 [OF inv_others [OF i] doc3])
    show "\<forall>j. j \<noteq> i \<longrightarrow> sel ?w3 j = sel w j \<and> obs ?w3 j = obs w j" using w2(4) by simp
    show "\<forall>d. d \<noteq> i \<longrightarrow> (draginstance ?w3 = Some d \<longleftrightarrow> draginstance w = Some d)"
      using w2(6) h(1) by simp
    show "\<forall>y. y \<notin> collected_items w i \<longrightarrow>
        item_state ?w3 y = item_state w y \<and> aria_disabled ?w3 y = aria_disabled w y"
      using dom_in_collected [OF colls c x] w2(7,8) by auto
  qed
  have sel3: "selection_ok ?w3 i"
  proof (cases "?f = []")
    case True
    then have "sel_dragitems (sel ?w3 i) = []" "sel_owner (sel ?w3 i) = None"
      "sel_droptarget (sel ?w3 i) = sel_droptarget (sel w i)"
      using w2(3) by simp_all
    with si show ?thesis by (simp add: selection_ok_def conts3)
  next
    case False
    then have s3: "sel ?w3 i = (sel w i)\<lparr>sel_dragitems := ?f\<rparr>" using w2(3) by simp
    have st: "dom_items ?w3 = dom_items w" "state_attr ?w3 = state_attr w"
      using doc3 by (simp_all add: same_document_def)
    have o3: "obs ?w3 i = obs w i" "draginstance ?w3 = draginstance w"
      "aria_disabled ?w3 = aria_disabled w"
      "\<And>y. y \<noteq> x \<Longrightarrow> item_state ?w3 y = item_state w y"
      using False w2(5,6,7,8) by simp_all
    show ?thesis
      unfolding selection_ok_def s3 st conts3
      using si False owner o3 by (auto simp: selection_ok_def)
  qed
  have "draginstance ?w3 = Some i \<longrightarrow> sel_dragitems (sel ?w3 i) \<noteq> []"
    using w2(3,6) by simp
  from others_inv [OF ok3 sel3 this] w2(1,2,3) show ?thesis by auto
qed

lemma removeSelection_throws:
  "sel_owner (sel w i) = None \<Longrightarrow> removeSelection i x None w = (Throws TypeError, w)"
  by (simp add: removeSelection_def)

lemma doSelectionThing_noncontiguous:
  assumes i: "inv w" and c: "c \<in> set (conts w i)" and x: "x \<in> set (dom_items w c)"
    and owner: "sel_owner (sel w i) = None \<or> sel_owner (sel w i) = Some c"
  shows "inv (snd (doSelectionThing i c x 1 w)) \<and> same_document w (snd (doSelectionThing i c x 1 w))"
proof (cases "item_state w x (state_attr w c) = Some ''true''")
  case True
  define w1 where "w1 = (if length (sel_dragitems (sel w i)) = 1 then clearDragValid i w else w)"
  have inv1: "inv w1" unfolding w1_def using i clearDragValid_inv by simp
  have s1: "same_selections w w1" unfolding w1_def using clearDragValid_same by simp
  then have doc1: "same_document w w1" by (rule same_selections_document)
  have sel1: "sel w1 i = sel w i" using s1 by (rule same_selections_sel)
  have unfold: "doSelectionThing i c x 1 w =
      and_then (removeSelection i x None)
        (done_with (\<lambda>w'. if sel_dragitems (sel w' i) = []
                         then set_sel i (\<lambda>s. s\<lparr>sel_owner := None\<rparr>) w' else w')) w1"
    unfolding w1_def using True by (simp add: doSelectionThing_def)
  show ?thesis
  proof (cases "sel_owner (sel w i)")
    case None
    with sel1 have "sel_owner (sel w1 i) = None" by simp
    then have "removeSelection i x None w1 = (Throws TypeError, w1)"
      by (rule removeSelection_throws)
    then have "doSelectionThing i c x 1 w = (Throws TypeError, w1)"
      unfolding unfold by (rule and_then_throws)
    with inv1 doc1 show ?thesis by simp
  next
    case (Some o')
    with owner have o: "sel_owner (sel w1 i) = Some c" by (simp add: sel1)
    have c1: "c \<in> set (conts w1 i)" using c by (simp add: same_document_conts [OF doc1])
    have x1: "x \<in> set (dom_items w1 c)" using x doc1 by (simp add: same_document_def)
    from remove_one_inv [OF inv1 c1 x1 o] obtain w2 where
      w2: "removeSelection i x None w1 = (Returns (), w2)"
        "inv (if sel_dragitems (sel w2 i) = [] then set_sel i (\<lambda>s. s\<lparr>sel_owner := None\<rparr>) w2 else w2)"
        "same_document w1 w2"
      by blast
    define w3 where
      "w3 = (if sel_dragitems (sel w2 i) = [] then set_sel i (\<lambda>s. s\<lparr>sel_owner := None\<rparr>) w2 else w2)"
    have r: "doSelectionThing i c x 1 w = (Returns (), w3)"
      unfolding unfold w3_def using w2(1) by (simp add: and_then_returns)
    have "same_document w2 w3" unfolding w3_def by (simp add: same_document_def)
    with doc1 w2(3) have "same_document w w3" by (blast intro: same_document_trans)
    with r w2(2) show ?thesis by (simp add: w3_def)
  qed
next
  case False
  have unfold: "doSelectionThing i c x 1 w =
      and_then (addSelection i x c) (addDragValid_if_selected i) w"
    using False by (simp add: doSelectionThing_def)
  from inv_not_selected [OF i owner False] have new: "x \<notin> set (sel_dragitems (sel w i))" .
  from add_one_inv [OF i c x owner new] obtain w2 where
    w2: "addSelection i x c w = (Returns (), w2)" "inv w2" "same_document w w2" by blast
  from addDragValid_if_selected_inv [OF w2(2), of i] obtain w3 where
    w3: "addDragValid_if_selected i w2 = (Returns (), w3)" "inv w3" "same_selections w2 w3"
    by blast
  have "doSelectionThing i c x 1 w = (Returns (), w3)"
    unfolding unfold using w2(1) w3(1) by (simp add: and_then_returns)
  moreover have "same_document w w3"
    using w2(3) same_selections_document [OF w3(3)] by (rule same_document_trans)
  ultimately show ?thesis using w3(2) by simp
qed

subsection \<open>The contiguous selection mode\<close>





section \<open>Further properties of the selection methods\<close>



lemma addSelection_evicts:
  assumes ok: "others_ok w i" and add: "adding_ok w i c"
    and x: "x \<in> set (dom_items w c)" and en: "\<not> aria_disabled w x"
  shows "\<exists>w5 w6. addSelection i x c w = (Returns (), w6\<lparr>draginstance := Some i\<rparr>) \<and>
     evict i w5 = (Returns (), w6) \<and> draginstance w5 = draginstance w \<and>
     (\<forall>j. j \<noteq> i \<longrightarrow> sel w5 j = sel w j) \<and>
     sel_dragitems (sel w5 i) = sel_dragitems (sel w i) @ [x] \<and>
     sel w6 i = sel w5 i \<and>
     draginstance w6 = (if draginstance w = Some i then Some i else None) \<and>
     (\<forall>j. j \<noteq> i \<longrightarrow> selection_ok w6 j \<and> sel_dragitems (sel w6 j) = [])"
proof -
  from ok have colls: "colls_ok w" by (simp add: others_ok_def)
  from add have c: "c \<in> set (conts w i)"
    and owner: "sel_owner (sel w i) = None \<or> sel_owner (sel w i) = Some c"
    by (simp_all add: adding_ok_def)
  from colls_ok_entry [OF colls c] obtain e where e: "coll w i c = Some e" by blast
  let ?w1 = "set_sel i (\<lambda>s. s\<lparr>sel_owner := Some c\<rparr>) w"
  let ?w2 = "?w1\<lparr>item_state := (item_state ?w1)
                       (x := (item_state ?w1 x)(state_attr ?w1 c \<mapsto> ''true''))\<rparr>"
  let ?w3 = "set_sel i (\<lambda>s. s\<lparr>sel_dragitems := sel_dragitems s @ [x]\<rparr>) ?w2"
  let ?w4 = "set_sel i (\<lambda>s. s\<lparr>sel_nodesort := True\<rparr>) ?w3"
  let ?w5 = "set_observing i False ?w4"
  have doc5: "same_document w ?w5" by (simp add: same_document_def)
  have others5: "\<forall>j. j \<noteq> i \<longrightarrow> sel ?w5 j = sel w j \<and> obs ?w5 j = obs w j" by simp
  have st5: "item_state ?w5 = (item_state w)(x := (item_state w x)(state_attr w c \<mapsto> ''true''))"
    "aria_disabled ?w5 = aria_disabled w" "draginstance ?w5 = draginstance w"
    by simp_all
  have xin: "x \<in> collected_items w i" using dom_in_collected [OF colls c x] .
  have ok5: "others_ok ?w5 i"
  proof (rule others_ok_cong [OF ok doc5 others5])
    show "draginstance ?w5 = draginstance w" by simp
    show "\<forall>y. y \<notin> collected_items w i \<longrightarrow>
       item_state ?w5 y = item_state w y \<and> aria_disabled ?w5 y = aria_disabled w y"
      using xin by (auto simp: st5)
  qed
  from evict_returns [OF ok5] obtain w6 where
    w6: "evict i ?w5 = (Returns (), w6)" "sel w6 i = sel ?w5 i"
      "\<forall>j. j \<noteq> i \<longrightarrow> selection_ok w6 j \<and> sel_dragitems (sel w6 j) = []"
      "draginstance w6 = (if draginstance ?w5 = Some i then Some i else None)"
    by blast
  have res: "addSelection i x c w = (Returns (), w6\<lparr>draginstance := Some i\<rparr>)"
    using en owner e w6(1) by (auto simp: addSelection_def Let_def)
  have "sel_dragitems (sel ?w5 i) = sel_dragitems (sel w i) @ [x]" by simp
  with res w6 others5 st5(3) show ?thesis by (intro exI [of _ ?w5] exI [of _ w6]) simp
qed





section \<open>The drop restores the invariant\<close>

lemma kept_refl: "kept w w"
  by (simp add: kept_def)

lemma kept_trans: "kept w w' \<Longrightarrow> kept w' w'' \<Longrightarrow> kept w w''"
  by (simp add: kept_def)

lemma remove_states_returns:
  assumes "sel_owner (sel w i) = Some s"
  shows "\<exists>f. for_each (remove_state i) xs w = (Returns (), w\<lparr>item_state := f\<rparr>)"
  using assms
proof (induction xs arbitrary: w)
  case Nil
  have "w = w\<lparr>item_state := item_state w\<rparr>" by simp
  then show ?case by (metis for_each.simps(1))
next
  case (Cons x xs)
  let ?w1 = "w\<lparr>item_state := (item_state w)(x := (item_state w x)(state_attr w s := None))\<rparr>"
  from Cons.prems have step: "remove_state i x w = (Returns (), ?w1)"
    by (simp add: remove_state_def)
  from Cons.prems have "sel_owner (sel ?w1 i) = Some s" by simp
  from Cons.IH [OF this] obtain f where
    "for_each (remove_state i) xs ?w1 = (Returns (), ?w1\<lparr>item_state := f\<rparr>)" by blast
  with step have "for_each (remove_state i) (x # xs) w = (Returns (), w\<lparr>item_state := f\<rparr>)"
    by simp
  then show ?case by blast
qed

lemma fold_appendChild:
  assumes "distinct xs"
  shows "fold (appendChild t) xs w =
     w\<lparr>dom_items := (\<lambda>c. if c = t then filter (\<lambda>y. y \<notin> set xs) (dom_items w c) @ xs
                           else filter (\<lambda>y. y \<notin> set xs) (dom_items w c))\<rparr>"
  using assms
proof (induction xs arbitrary: w)
  case Nil
  have "(\<lambda>c. if c = t then filter (\<lambda>y. y \<notin> set []) (dom_items w c) @ []
            else filter (\<lambda>y. y \<notin> set []) (dom_items w c)) = dom_items w"
    by (simp add: fun_eq_iff)
  then show ?case by simp
next
  case (Cons x xs)
  then have d: "distinct xs" and x: "x \<notin> set xs" by simp_all
  have f: "filter (\<lambda>y. y \<notin> set xs) (filter (\<lambda>y. y \<noteq> x) ys) =
           filter (\<lambda>y. y \<notin> set (x # xs)) ys" for ys :: "item list"
    by (induction ys) auto
  have "fold (appendChild t) (x # xs) w = fold (appendChild t) xs (appendChild t x w)" by simp
  also have "\<dots> = (appendChild t x w)\<lparr>dom_items :=
       (\<lambda>c. if c = t then filter (\<lambda>y. y \<notin> set xs) (dom_items (appendChild t x w) c) @ xs
            else filter (\<lambda>y. y \<notin> set xs) (dom_items (appendChild t x w) c))\<rparr>"
    by (rule Cons.IH [OF d])
  also have "\<dots> = w\<lparr>dom_items :=
       (\<lambda>c. if c = t then filter (\<lambda>y. y \<notin> set (x # xs)) (dom_items w c) @ x # xs
            else filter (\<lambda>y. y \<notin> set (x # xs)) (dom_items w c))\<rparr>"
    using x by (simp add: appendChild_def f fun_eq_iff)
  finally show ?case .
qed

lemma init_dragitems_returns:
  assumes "\<forall>x\<in>set xs. item_role w x \<noteq> []"
  shows "\<exists>f. for_each (init_dragitem c) xs w = (Returns (), w\<lparr>item_state := f\<rparr>)"
  using assms
proof (induction xs arbitrary: w)
  case Nil
  have "w = w\<lparr>item_state := item_state w\<rparr>" by simp
  then show ?case by (metis for_each.simps(1))
next
  case (Cons x xs)
  let ?w1 = "w\<lparr>item_state := (item_state w)(x := (item_state w x)(state_attr w c \<mapsto> ''false''))\<rparr>"
  from Cons.prems have step: "init_dragitem c x w = (Returns (), ?w1)"
    by (simp add: init_dragitem_def)
  from Cons.prems have "\<forall>x\<in>set xs. item_role ?w1 x \<noteq> []" by simp
  from Cons.IH [OF this] obtain f where
    "for_each (init_dragitem c) xs ?w1 = (Returns (), ?w1\<lparr>item_state := f\<rparr>)" by blast
  with step have "for_each (init_dragitem c) (x # xs) w = (Returns (), w\<lparr>item_state := f\<rparr>)"
    by simp
  then show ?case by blast
qed

lemma getDroptarget_returns:
  assumes "\<forall>x\<in>set (dom_items w c). item_role w x \<noteq> []"
  shows "\<exists>w'. getDroptarget c sd w = (Returns (), w') \<and> kept w w' \<and>
     (\<forall>j c'. coll w' j c' = coll w j c') \<and>
     (\<forall>c'. c' \<noteq> c \<longrightarrow> activedescendant w' c' = activedescendant w c' \<and>
        lastdescendant w' c' = lastdescendant w c') \<and>
     (dom_items w c \<noteq> [] \<longrightarrow>
        activedescendant w' c = Some (case sd of None \<Rightarrow> hd (dom_items w c) | Some d \<Rightarrow> d) \<and>
        lastdescendant w' c = Some (case sd of None \<Rightarrow> hd (dom_items w c) | Some d \<Rightarrow> d))"
proof -
  let ?w0 = "w\<lparr>drag_valid := (drag_valid w)(c := None)\<rparr>"
  from assms have "\<forall>x\<in>set (dom_items ?w0 c). item_role ?w0 x \<noteq> []" by simp
  from init_dragitems_returns [OF this, of c] obtain f where
    f: "getDragitems_init c ?w0 = (Returns (), ?w0\<lparr>item_state := f\<rparr>)"
    by (auto simp: getDragitems_init_def)
  show ?thesis
  proof (cases "dom_items w c")
    case Nil
    with f show ?thesis by (simp add: getDroptarget_def kept_def)
  next
    case (Cons first rest)
    with f show ?thesis by (simp add: getDroptarget_def kept_def Let_def split: option.splits)
  qed
qed

lemma rebuild_returns:
  assumes "coll w i c = Some e" and "\<forall>x\<in>set (dom_items w c). item_role w x \<noteq> []"
  shows "\<exists>w'. rebuild i c sd w = (Returns (), w') \<and> kept w w' \<and>
     (\<forall>j c'. coll w' j c' =
        (if j = i \<and> c' = c
         then Some (e\<lparr>coll_dragitems := dom_items w c,
                      coll_multimode := getDefaultMultimode w c (dom_items w c)\<rparr>)
         else coll w j c')) \<and>
     (\<forall>c'. c' \<noteq> c \<longrightarrow> activedescendant w' c' = activedescendant w c' \<and>
        lastdescendant w' c' = lastdescendant w c') \<and>
     (dom_items w c \<noteq> [] \<longrightarrow>
        activedescendant w' c = Some (case sd of None \<Rightarrow> hd (dom_items w c) | Some d \<Rightarrow> d) \<and>
        lastdescendant w' c = Some (case sd of None \<Rightarrow> hd (dom_items w c) | Some d \<Rightarrow> d))"
proof -
  from getDroptarget_returns [OF assms(2), of sd] obtain w1 where
    w1: "getDroptarget c sd w = (Returns (), w1)" "kept w w1"
      "\<forall>j c'. coll w1 j c' = coll w j c'"
      "\<forall>c'. c' \<noteq> c \<longrightarrow> activedescendant w1 c' = activedescendant w c' \<and>
        lastdescendant w1 c' = lastdescendant w c'"
      "dom_items w c \<noteq> [] \<longrightarrow>
        activedescendant w1 c = Some (case sd of None \<Rightarrow> hd (dom_items w c) | Some d \<Rightarrow> d) \<and>
        lastdescendant w1 c = Some (case sd of None \<Rightarrow> hd (dom_items w c) | Some d \<Rightarrow> d)"
    by blast
  let ?w' = "set_coll i c (\<lambda>e. e\<lparr>coll_dragitems := dom_items w1 c,
                 coll_multimode := getDefaultMultimode w1 c (dom_items w1 c)\<rparr>) w1"
  from w1(3) assms(1) have e1: "coll w1 i c = Some e" by simp
  with w1(1) have r: "rebuild i c sd w = (Returns (), ?w')" by (simp add: rebuild_def)
  from w1(2) have same: "dom_items w1 = dom_items w" "state_attr w1 = state_attr w"
    "item_role w1 = item_role w" by (simp_all add: kept_def)
  have m: "getDefaultMultimode w1 c items = getDefaultMultimode w c items" for items
    by (simp add: getDefaultMultimode_def same split: list.splits)
  have "kept w ?w'" using w1(2) by (simp add: kept_def)
  with r w1(3,4,5) e1 show ?thesis by (simp add: same m)
qed

lemma dom_ok_moved:
  assumes "dom_ok w" "distinct moved"
  shows "dom_ok (w\<lparr>dom_items := (\<lambda>c. if c = t then filter (\<lambda>y. y \<notin> set moved) (dom_items w c) @ moved
                           else filter (\<lambda>y. y \<notin> set moved) (dom_items w c))\<rparr>)"
  using assms unfolding dom_ok_def by auto

lemma rebuild_after_drop_returns:
  assumes "coll w i c = Some e" and "\<forall>x\<in>set (dom_items w c). item_role w x \<noteq> []"
  shows "\<exists>w' d. rebuild_after_drop i (Some c) w = (Returns (), w') \<and> kept w w' \<and>
     (\<forall>j c'. coll w' j c' =
        (if j = i \<and> c' = c
         then Some (e\<lparr>coll_dragitems := dom_items w c,
                      coll_multimode := getDefaultMultimode w c (dom_items w c)\<rparr>)
         else coll w j c')) \<and>
     (\<forall>c'. c' \<noteq> c \<longrightarrow> activedescendant w' c' = activedescendant w c' \<and>
        lastdescendant w' c' = lastdescendant w c') \<and>
     (dom_items w c \<noteq> [] \<longrightarrow> d \<in> set (dom_items w c) \<and>
        activedescendant w' c = Some d \<and> lastdescendant w' c = Some d)"
proof -
  let ?sd = "if sel_droptarget (sel w i) = sel_owner (sel w i) \<or> Some c \<noteq> sel_owner (sel w i)
             then (case dom_items w c of [] \<Rightarrow> None | x # xs \<Rightarrow> Some (last (x # xs)))
             else None"
  let ?d = "case ?sd of None \<Rightarrow> hd (dom_items w c) | Some d \<Rightarrow> d"
  have r: "rebuild_after_drop i (Some c) w = rebuild i c ?sd w"
    by (simp add: rebuild_after_drop_def)
  have d: "dom_items w c \<noteq> [] \<longrightarrow> ?d \<in> set (dom_items w c)"
    by (cases "dom_items w c") auto
  from rebuild_returns [OF assms, of ?sd] obtain w' where
    "rebuild i c ?sd w = (Returns (), w')" "kept w w'"
    "\<forall>j c'. coll w' j c' =
        (if j = i \<and> c' = c
         then Some (e\<lparr>coll_dragitems := dom_items w c,
                      coll_multimode := getDefaultMultimode w c (dom_items w c)\<rparr>)
         else coll w j c')"
    "\<forall>c'. c' \<noteq> c \<longrightarrow> activedescendant w' c' = activedescendant w c' \<and>
        lastdescendant w' c' = lastdescendant w c'"
    "dom_items w c \<noteq> [] \<longrightarrow> activedescendant w' c = Some ?d \<and> lastdescendant w' c = Some ?d"
    by blast
  with r d show ?thesis by (intro exI [of _ w'] exI [of _ ?d]) simp
qed

lemma doDropThing_returns:
  assumes ok: "others_ok w i" and drag: "draginstance w = Some i"
    and owner: "sel_owner (sel w i) = Some s" "s \<in> set (conts w i)"
    and items: "sel_dragitems (sel w i) \<noteq> []" "distinct (sel_dragitems (sel w i))"
      "set (sel_dragitems (sel w i)) \<subseteq> set (dom_items w s)"
    and target: "sel_droptarget (sel w i) = Some t" "t \<in> set (conts w i)"
    and moved: "moved = (if sel_nodesort (sel w i)
                         then filter (\<lambda>x. x \<in> set (sel_dragitems (sel w i))) (dom_items w s)
                         else sel_dragitems (sel w i))"
  shows "\<exists>w'. doDropThing i w = (Returns True, w') \<and> inv w' \<and>
     dom_items w' = (\<lambda>c. if c = t then filter (\<lambda>y. y \<notin> set moved) (dom_items w c) @ moved
                          else filter (\<lambda>y. y \<notin> set moved) (dom_items w c)) \<and>
     sel_dragitems (sel w' i) = [] \<and> sel_owner (sel w' i) = None \<and>
     sel_droptarget (sel w' i) = None \<and> draginstance w' = None \<and>
     (\<forall>j. conts w' j = conts w j) \<and> (\<forall>j. j \<noteq> i \<longrightarrow> sel w' j = sel w j)"
proof -
  let ?items = "sel_dragitems (sel w i)"
  let ?D = "\<lambda>c. if c = t then filter (\<lambda>y. y \<notin> set moved) (dom_items w c) @ moved
                 else filter (\<lambda>y. y \<notin> set moved) (dom_items w c)"
  from ok have dom: "dom_ok w" and colls: "colls_ok w" and desc: "descendants_ok w"
    and sels: "\<And>j. j \<noteq> i \<Longrightarrow> selection_ok w j"
    by (simp_all add: others_ok_def)
  from dom have dist_s: "distinct (dom_items w s)" by (simp add: dom_ok_def)
  have moved_set: "set moved = set ?items" using items(3) by (auto simp: moved)
  have moved_dist: "distinct moved" using items(2) dist_s by (simp add: moved)
  from colls_ok_entry [OF colls owner(2)] obtain es where
    es: "coll w i s = Some es" "coll_dragitems es = dom_items w s" by blast
  from colls_ok_entry [OF colls target(2)] obtain et where
    et: "coll w i t = Some et" by blast
  have roles: "item_role w x \<noteq> []" if "c \<in> set (conts w j)" "x \<in> set (dom_items w c)" for j c x
    using colls that unfolding colls_ok_def by blast
  have rolesD: "item_role w x \<noteq> []" if "c \<in> set (conts w j)" "x \<in> set (?D c)" for j c x
  proof -
    from that(2) have "x \<in> set (dom_items w c) \<or> x \<in> set moved" by (auto split: if_splits)
    with moved_set items(3) have "x \<in> set (dom_items w c) \<or> x \<in> set (dom_items w s)" by auto
    with roles that(1) owner(2) show ?thesis by blast
  qed
  have others_empty: "sel_dragitems (sel w j) = []" if "j \<noteq> i" for j
  proof (rule ccontr)
    assume "sel_dragitems (sel w j) \<noteq> []"
    from selection_ok_holder [OF sels [OF that] this] drag that show False by simp
  qed
  have unmoved: "?D c = dom_items w c" if "c \<noteq> s" "c \<noteq> t" for c
  proof -
    have "y \<notin> set moved" if "y \<in> set (dom_items w c)" for y
    proof
      assume "y \<in> set moved"
      with moved_set items(3) have "y \<in> set (dom_items w s)" by auto
      from dom_ok_unique [OF dom that this] \<open>c \<noteq> s\<close> show False by simp
    qed
    then have "filter (\<lambda>y. y \<notin> set moved) (dom_items w c) = dom_items w c"
      by (simp add: filter_id_conv)
    with that show ?thesis by simp
  qed
  \<comment> \<open>the state attributes are removed\<close>
  from remove_states_returns [OF owner(1), of ?items] obtain f where
    w1: "for_each (remove_state i) ?items w = (Returns (), w\<lparr>item_state := f\<rparr>)" by blast
  let ?w1 = "w\<lparr>item_state := f\<rparr>"
  \<comment> \<open>the items move\<close>
  let ?w2 = "?w1\<lparr>dom_items := ?D\<rparr>"
  have D1: "(\<lambda>c. if c = t then filter (\<lambda>y. y \<notin> set moved) (dom_items ?w1 c) @ moved
                 else filter (\<lambda>y. y \<notin> set moved) (dom_items ?w1 c)) = ?D"
    by (simp add: fun_eq_iff)
  have w2: "move_items i t ?w1 = (Returns (), ?w2)"
  proof (cases "sel_nodesort (sel w i)")
    case True
    then have m: "moved = filter (\<lambda>x. x \<in> set ?items) (coll_dragitems es)"
      by (simp add: moved es(2))
    have "fold (appendChild t) moved ?w1 = ?w2"
      by (simp only: fold_appendChild [OF moved_dist, of t ?w1] D1)
    with True owner(1) es(1) et m show ?thesis by (simp add: move_items_def)
  next
    case False
    then have m: "moved = ?items" by (simp add: moved)
    have "fold (appendChild t) moved ?w1 = ?w2"
      by (simp only: fold_appendChild [OF moved_dist, of t ?w1] D1)
    with False et m show ?thesis by (simp add: move_items_def)
  qed
  \<comment> \<open>the owner and the drop target are rebuilt\<close>
  have c2s: "coll ?w2 i s = Some es" using es(1) by simp
  have r2s: "\<forall>x\<in>set (dom_items ?w2 s). item_role ?w2 x \<noteq> []"
    using rolesD [OF owner(2)] by simp
  from rebuild_after_drop_returns [OF c2s r2s] obtain w3 ds where
    w3: "rebuild_after_drop i (Some s) ?w2 = (Returns (), w3)" "kept ?w2 w3"
      "\<forall>j c'. coll w3 j c' =
        (if j = i \<and> c' = s
         then Some (es\<lparr>coll_dragitems := dom_items ?w2 s,
                      coll_multimode := getDefaultMultimode ?w2 s (dom_items ?w2 s)\<rparr>)
         else coll ?w2 j c')"
      "\<forall>c'. c' \<noteq> s \<longrightarrow> activedescendant w3 c' = activedescendant ?w2 c' \<and>
        lastdescendant w3 c' = lastdescendant ?w2 c'"
      "dom_items ?w2 s \<noteq> [] \<longrightarrow> ds \<in> set (dom_items ?w2 s) \<and>
        activedescendant w3 s = Some ds \<and> lastdescendant w3 s = Some ds"
    by blast
  from w3(2) have k3: "dom_items w3 = ?D" "item_role w3 = item_role w"
    "draginstance w3 = Some i" "\<And>j. sel w3 j = sel w j" "\<And>j. conts w3 j = conts w j"
    using drag by (simp_all add: kept_def)
  from w3(3) et es obtain et3 where c3t: "coll w3 i t = Some et3" by (cases "t = s") auto
  have r3t: "\<forall>x\<in>set (dom_items w3 t). item_role w3 x \<noteq> []"
    using rolesD [OF target(2)] by (simp add: k3)
  from rebuild_after_drop_returns [OF c3t r3t] obtain w4 dt where
    w4: "rebuild_after_drop i (Some t) w3 = (Returns (), w4)" "kept w3 w4"
      "\<forall>j c'. coll w4 j c' =
        (if j = i \<and> c' = t
         then Some (et3\<lparr>coll_dragitems := dom_items w3 t,
                      coll_multimode := getDefaultMultimode w3 t (dom_items w3 t)\<rparr>)
         else coll w3 j c')"
      "\<forall>c'. c' \<noteq> t \<longrightarrow> activedescendant w4 c' = activedescendant w3 c' \<and>
        lastdescendant w4 c' = lastdescendant w3 c'"
      "dom_items w3 t \<noteq> [] \<longrightarrow> dt \<in> set (dom_items w3 t) \<and>
        activedescendant w4 t = Some dt \<and> lastdescendant w4 t = Some dt"
    by blast
  from w4(2) k3 have k4: "dom_items w4 = ?D" "item_role w4 = item_role w"
    "draginstance w4 = Some i" "\<And>j. sel w4 j = sel w j" "\<And>j. conts w4 j = conts w j"
    by (simp_all add: kept_def)
  have loop: "for_each (rebuild_after_drop i) [sel_owner (sel ?w2 i), sel_droptarget (sel ?w2 i)] ?w2
      = (Returns (), w4)"
    using w3(1) w4(1) owner(1) target(1) by simp
  \<comment> \<open>the world after the rebuild is in order, but for the selection\<close>
  have dom4: "dom_ok w4"
  proof -
    from dom_ok_moved [OF dom moved_dist, of t] have "dom_ok (w\<lparr>dom_items := ?D\<rparr>)" .
    then show ?thesis by (simp add: dom_ok_def k4)
  qed
  have coll4: "\<exists>e. coll w4 j c = Some e \<and> coll_dragitems e = dom_items w4 c"
    if c: "c \<in> set (conts w j)" for j c
  proof (cases "j = i \<and> c = t")
    case True
    with w4(3) k3(1) k4(1) show ?thesis by simp
  next
    case nt: False
    show ?thesis
    proof (cases "j = i \<and> c = s")
      case True
      with nt w4(3) w3(3) k4(1) show ?thesis by simp
    next
      case ns: False
      from colls_ok_entry [OF colls c] obtain e where
        e: "coll w j c = Some e" "coll_dragitems e = dom_items w c" by blast
      have "c \<noteq> s"
      proof
        assume "c = s"
        with c owner(2) conts_disjoint [OF colls] have "j = i" by blast
        with ns \<open>c = s\<close> show False by simp
      qed
      moreover have "c \<noteq> t"
      proof
        assume "c = t"
        with c target(2) conts_disjoint [OF colls] have "j = i" by blast
        with nt \<open>c = t\<close> show False by simp
      qed
      ultimately have "?D c = dom_items w c" by (rule unmoved)
      moreover from nt ns w4(3) w3(3) have "coll w4 j c = coll w j c" by auto
      ultimately show ?thesis using e by (simp add: k4)
    qed
  qed
  have colls4: "colls_ok w4"
    unfolding colls_ok_def
  proof (intro allI conjI ballI impI)
    fix j
    from colls show "distinct (conts w4 j)" by (simp add: colls_ok_def k4)
    fix c assume "c \<in> set (conts w4 j)"
    then have c: "c \<in> set (conts w j)" by (simp add: k4)
    from coll4 [OF c] show "\<exists>e. coll w4 j c = Some e \<and> coll_dragitems e = dom_items w4 c" .
    fix x assume "x \<in> set (dom_items w4 c)"
    with rolesD [OF c] show "item_role w4 x \<noteq> []" by (simp add: k4)
  next
    fix j j' :: inst assume "j' \<noteq> j"
    with colls show "set (conts w4 j) \<inter> set (conts w4 j') = {}"
      unfolding colls_ok_def k4 by metis
  qed
  have desc4: "descendants_ok w4"
    unfolding descendants_ok_def
  proof (intro allI ballI impI)
    fix j c assume "c \<in> set (conts w4 j)" and ne: "dom_items w4 c \<noteq> []"
    then have c: "c \<in> set (conts w j)" by (simp add: k4)
    show "(\<exists>a. activedescendant w4 c = Some a \<and> a \<in> set (dom_items w4 c)) \<and>
          (\<exists>l. lastdescendant w4 c = Some l \<and> l \<in> set (dom_items w4 c))"
    proof (cases "c = t")
      case True
      with w4(5) ne k3(1) k4(1) show ?thesis by auto
    next
      case nt: False
      show ?thesis
      proof (cases "c = s")
        case True
        with nt w4(4) w3(5) ne k4(1) show ?thesis by auto
      next
        case ns: False
        from unmoved [OF ns nt] have same: "dom_items w4 c = dom_items w c" by (simp add: k4)
        from nt ns w4(4) w3(4) have "activedescendant w4 c = activedescendant w c"
          "lastdescendant w4 c = lastdescendant w c" by simp_all
        with desc c ne same show ?thesis unfolding descendants_ok_def by simp
      qed
    qed
  qed
  \<comment> \<open>the drag-valid state and the selection are cleared\<close>
  let ?w5 = "clearDragValid i w4"
  have s5: "same_selections w4 ?w5" by (rule clearDragValid_same)
  then have doc5: "same_document w4 ?w5" by (rule same_selections_document)
  have sel5: "\<And>j. sel ?w5 j = sel w j" using same_selections_sel [OF s5] k4(4) by simp
  have t5: "sel_droptarget (sel ?w5 i) = Some t" using sel5 target(1) by simp
  have closest5: "\<forall>x\<in>set (sel_dragitems (sel ?w5 i)). getClosest ?w5 i x \<noteq> None"
  proof
    fix x assume "x \<in> set (sel_dragitems (sel ?w5 i))"
    then have "x \<in> set moved" by (simp add: sel5 moved_set)
    then have x: "x \<in> set (dom_items w4 t)" by (simp add: k4)
    from target(2) have "t \<in> set (conts w4 i)" by (simp add: k4)
    from getClosest_in [OF dom4 this x] show "getClosest ?w5 i x \<noteq> None"
      by (simp add: same_document_getClosest [OF doc5])
  qed
  have "(case Some t of None \<Rightarrow> sel_owner (sel ?w5 i) | Some c \<Rightarrow> Some c) = Some t" by simp
  from clearSelections_returns [OF _ this closest5] items(1) obtain w6 where
    w6: "clearSelections i (Some t) ?w5 = (Returns (), w6)" "same_document ?w5 w6"
      "sel_dragitems (sel w6 i) = []" "sel_owner (sel w6 i) = None"
      "sel_droptarget (sel w6 i) = sel_droptarget (sel ?w5 i)" "sel_nodesort (sel w6 i)"
      "\<forall>j. j \<noteq> i \<longrightarrow> sel w6 j = sel ?w5 j \<and> obs w6 j = obs ?w5 j"
      "obs w6 i" "draginstance w6 = None"
    by (auto simp: sel5)
  let ?w7 = "set_sel i (\<lambda>s. s\<lparr>sel_droptarget := None\<rparr>) w6"
  have doc46: "same_document w4 w6" using doc5 w6(2) by (rule same_document_trans)
  have doc47: "same_document w4 ?w7" using doc46 by (simp add: same_document_def)
  let ?k6 = "done_with (set_sel i (\<lambda>s. s\<lparr>sel_droptarget := None\<rparr>))"
  let ?k5 = "and_then (\<lambda>w'. clearSelections i (sel_droptarget (sel w' i)) w') ?k6"
  let ?k4 = "and_then (done_with (clearDragValid i)) ?k5"
  let ?k3 = "and_then (\<lambda>w'. for_each (rebuild_after_drop i)
                              [sel_owner (sel w' i), sel_droptarget (sel w' i)] w') ?k4"
  let ?k2 = "and_then (move_items i t) ?k3"
  have "clearSelections i (sel_droptarget (sel ?w5 i)) ?w5 = (Returns (), w6)"
    by (simp only: t5 w6(1))
  then have "?k5 ?w5 = ?k6 w6" by (rule and_then_returns)
  then have e5: "?k5 ?w5 = (Returns (), ?w7)" by simp
  have e4: "?k4 w4 = (Returns (), ?w7)" by (simp only: and_then_done_with e5)
  have "?k3 ?w2 = ?k4 w4" by (rule and_then_returns) (rule loop)
  with e4 have e3: "?k3 ?w2 = (Returns (), ?w7)" by simp
  have "?k2 ?w1 = ?k3 ?w2" by (rule and_then_returns) (rule w2)
  with e3 have e2: "?k2 ?w1 = (Returns (), ?w7)" by simp
  have "and_then (for_each (remove_state i) ?items) ?k2 w = ?k2 ?w1"
    by (rule and_then_returns) (rule w1)
  with e2 have e1: "and_then (for_each (remove_state i) ?items) ?k2 w = (Returns (), ?w7)"
    by simp
  have res: "doDropThing i w = (Returns True, ?w7)"
    by (simp only: doDropThing_def target(1) option.case e1 prod.case outcome.case)
  have sel7: "sel_dragitems (sel ?w7 i) = []" "sel_owner (sel ?w7 i) = None"
    "sel_droptarget (sel ?w7 i) = None" "\<And>j. j \<noteq> i \<Longrightarrow> sel ?w7 j = sel w j"
    using w6(3,4,7) sel5 by simp_all
  have conts7: "\<And>j. conts ?w7 j = conts w j"
    using same_document_conts [OF doc47] k4(5) by simp
  have "selection_ok ?w7 j" for j
  proof (cases "j = i")
    case True
    with sel7 show ?thesis by (simp add: selection_ok_def)
  next
    case False
    from sels [OF False] others_empty [OF False] sel7(4) [OF False] conts7 [of j]
    show ?thesis by (simp add: selection_ok_def)
  qed
  moreover have "arbiter_ok ?w7" using w6(9) by (simp add: arbiter_ok_def)
  ultimately have "inv ?w7"
    using same_document_dom_ok [OF doc47 dom4] same_document_colls_ok [OF doc47 colls4]
      same_document_descendants_ok [OF doc47 desc4]
    by (simp add: inv_def)
  moreover have "dom_items ?w7 = ?D" using doc47 k4(1) by (simp add: same_document_def)
  moreover have "draginstance ?w7 = None" using w6(9) by simp
  ultimately show ?thesis using res sel7 conts7 by (intro exI [of _ ?w7]) simp
qed

lemma inv_but_flag_facts:
  assumes "inv_but_flag w i"
  shows "others_ok w i"
    and "sel_dragitems (sel w i) = [] \<longleftrightarrow> sel_owner (sel w i) = None"
    and "sel_owner (sel w i) = Some s \<Longrightarrow> s \<in> set (conts w i) \<and>
           set (sel_dragitems (sel w i)) \<subseteq> set (dom_items w s) \<and> draginstance w = Some i"
    and "distinct (sel_dragitems (sel w i))"
    and "sel_droptarget (sel w i) = Some t \<Longrightarrow> t \<in> set (conts w i)"
proof -
  let ?w = "set_sel i (\<lambda>s. s\<lparr>sel_nodesort := True\<rparr>) w"
  from assms have i: "inv ?w" by (simp add: inv_but_flag_def)
  have "same_document ?w w" by (simp add: same_document_def)
  from others_ok_cong [OF inv_others [OF i, of i] this] show "others_ok w i" by simp
  from inv_selection_ok [OF i, of i] have s: "selection_ok ?w i" .
  from s show "sel_dragitems (sel w i) = [] \<longleftrightarrow> sel_owner (sel w i) = None"
    by (simp add: selection_ok_def)
  from s show "distinct (sel_dragitems (sel w i))" by (simp add: selection_ok_def)
  from s show "sel_droptarget (sel w i) = Some t \<Longrightarrow> t \<in> set (conts w i)"
    by (simp add: selection_ok_def)
  show "sel_owner (sel w i) = Some s \<Longrightarrow> s \<in> set (conts w i) \<and>
           set (sel_dragitems (sel w i)) \<subseteq> set (dom_items w s) \<and> draginstance w = Some i"
  proof -
    assume o: "sel_owner (sel w i) = Some s"
    with s have "sel_dragitems (sel w i) \<noteq> []" by (simp add: selection_ok_def)
    with s o show ?thesis by (auto simp: selection_ok_def)
  qed
qed

lemma doDropThing_flagged:
  assumes "inv_but_flag w i" and "sel_droptarget (sel w i) = Some t"
    and "sel_owner (sel w i) = Some s"
  shows "\<exists>w'. doDropThing i w = (Returns True, w') \<and> inv w' \<and>
     dom_items w' =
       (\<lambda>c. if c = t
            then filter (\<lambda>y. y \<notin> set (sel_dragitems (sel w i))) (dom_items w c) @
                 (if sel_nodesort (sel w i)
                  then filter (\<lambda>x. x \<in> set (sel_dragitems (sel w i))) (dom_items w s)
                  else sel_dragitems (sel w i))
            else filter (\<lambda>y. y \<notin> set (sel_dragitems (sel w i))) (dom_items w c)) \<and>
     sel_dragitems (sel w' i) = [] \<and> sel_owner (sel w' i) = None \<and>
     sel_droptarget (sel w' i) = None \<and> draginstance w' = None \<and>
     (\<forall>j. conts w' j = conts w j) \<and> (\<forall>j. j \<noteq> i \<longrightarrow> sel w' j = sel w j)"
proof -
  note f = inv_but_flag_facts [OF assms(1)]
  from f(3) [OF assms(3)] have s: "s \<in> set (conts w i)"
    "set (sel_dragitems (sel w i)) \<subseteq> set (dom_items w s)" "draginstance w = Some i"
    by simp_all
  from f(2) assms(3) have ne: "sel_dragitems (sel w i) \<noteq> []" by simp
  define moved where "moved = (if sel_nodesort (sel w i)
                  then filter (\<lambda>x. x \<in> set (sel_dragitems (sel w i))) (dom_items w s)
                  else sel_dragitems (sel w i))"
  have ms: "set moved = set (sel_dragitems (sel w i))" using s(2) by (auto simp: moved_def)
  from doDropThing_returns [OF f(1) s(3) assms(3) s(1) ne f(4) s(2) assms(2) f(5) [OF assms(2)] moved_def]
  obtain w' where w': "doDropThing i w = (Returns True, w')" "inv w'"
    "dom_items w' = (\<lambda>c. if c = t then filter (\<lambda>y. y \<notin> set moved) (dom_items w c) @ moved
                          else filter (\<lambda>y. y \<notin> set moved) (dom_items w c))"
    "sel_dragitems (sel w' i) = []" "sel_owner (sel w' i) = None"
    "sel_droptarget (sel w' i) = None" "draginstance w' = None"
    "\<forall>j. conts w' j = conts w j" "\<forall>j. j \<noteq> i \<longrightarrow> sel w' j = sel w j"
    by blast
  from w'(3) have "dom_items w' =
       (\<lambda>c. if c = t
            then filter (\<lambda>y. y \<notin> set (sel_dragitems (sel w i))) (dom_items w c) @
                 (if sel_nodesort (sel w i)
                  then filter (\<lambda>x. x \<in> set (sel_dragitems (sel w i))) (dom_items w s)
                  else sel_dragitems (sel w i))
            else filter (\<lambda>y. y \<notin> set (sel_dragitems (sel w i))) (dom_items w c))"
    unfolding ms unfolding moved_def .
  with w'(1,2,4-9) show ?thesis by blast
qed

lemma set_sel_set_sel: "set_sel i f (set_sel i g w) = set_sel i (\<lambda>s. f (g s)) w"
  by (simp add: set_sel_def)

lemma inv_set_sel:
  assumes "inv w"
    and "sel_dragitems (f (sel w i)) = sel_dragitems (sel w i)"
    and "sel_owner (f (sel w i)) = sel_owner (sel w i)"
    and "\<forall>t. sel_droptarget (f (sel w i)) = Some t \<longrightarrow> t \<in> set (conts w i)"
    and "sel_dragitems (sel w i) \<noteq> [] \<longrightarrow> sel_nodesort (f (sel w i))"
  shows "inv (set_sel i f w)"
proof -
  let ?w = "set_sel i f w"
  from assms(1) have "dom_ok ?w" by (simp add: inv_def dom_ok_def)
  moreover from assms(1) have "colls_ok ?w" by (simp add: inv_def colls_ok_def)
  moreover from assms(1) have "descendants_ok ?w" by (simp add: inv_def descendants_ok_def)
  moreover have "selection_ok ?w j" for j
  proof (cases "j = i")
    case True
    from inv_selection_ok [OF assms(1), of i] assms(2-5) True show ?thesis
      by (simp add: selection_ok_def)
  next
    case False
    from inv_selection_ok [OF assms(1), of j] False show ?thesis
      by (simp add: selection_ok_def)
  qed
  moreover from assms(1,2) have "arbiter_ok ?w" by (simp add: inv_def arbiter_ok_def)
  ultimately show ?thesis by (simp add: inv_def)
qed

lemma inv_but_flag_target:
  assumes "inv w" "t \<in> set (conts w i)"
  shows "inv_but_flag (set_sel i (\<lambda>s. s\<lparr>sel_droptarget := Some t\<rparr>) w) i"
    and "inv_but_flag (set_sel i (\<lambda>s. s\<lparr>sel_droptarget := Some t\<rparr>)
           (set_sel i (\<lambda>s. s\<lparr>sel_nodesort := b\<rparr>) w)) i"
  using assms unfolding inv_but_flag_def set_sel_set_sel
  by (auto intro!: inv_set_sel)

lemma inv_inv_but_flag:
  assumes "inv w"
  shows "inv_but_flag w i"
  unfolding inv_but_flag_def
proof (rule inv_set_sel [OF assms])
  from inv_selection_ok [OF assms, of i]
  show "\<forall>t. sel_droptarget ((sel w i)\<lparr>sel_nodesort := True\<rparr>) = Some t \<longrightarrow> t \<in> set (conts w i)"
    by (simp add: selection_ok_def)
qed simp_all

section \<open>The example worlds satisfy the invariant\<close>

lemma conts_example:
  "conts example_world i = (if i = 0 then [1, 2] else if i = 1 then [3] else [])"
  by (simp add: conts_def example_world_def example_instance_def)

lemma coll_example:
  "coll example_world i c =
     (if c \<in> set (conts example_world i)
      then Some \<lparr>coll_dragitems = example_items c, coll_sorted = False, coll_multimode = 1\<rparr>
      else None)"
  by (simp add: coll_def conts_def example_world_def example_instance_def example_items_def)

lemma dom_items_example: "dom_items example_world = example_items"
  by (simp add: example_world_def)

lemma distinct_example_items: "distinct (example_items c)"
  by (simp add: example_items_def)

lemma disjoint_example_items: "c \<noteq> c' \<Longrightarrow> set (example_items c) \<inter> set (example_items c') = {}"
  by (auto simp: example_items_def split: if_splits)

lemma fields_example:
  "draginstance example_world = None"
  "item_role example_world x = ''option''"
  "aria_disabled example_world x = False"
  "activedescendant example_world c = (case example_items c of [] \<Rightarrow> None | x # xs \<Rightarrow> Some x)"
  "lastdescendant example_world c = (case example_items c of [] \<Rightarrow> None | x # xs \<Rightarrow> Some x)"
  "state_attr example_world c = ''aria-selected''"
  "item_state example_world x = [''aria-selected'' \<mapsto> ''false'']"
  "drag_sorted example_world c = False"
  by (simp_all add: example_world_def)

lemma sel_example:
  "sel example_world i = \<lparr>sel_dragitems = [], sel_owner = None, sel_droptarget = None,
                       sel_nodesort = True\<rparr>"
  by (simp add: sel_def example_world_def example_instance_def)

lemma obs_example: "obs example_world i"
  by (simp add: obs_def example_world_def example_instance_def)

lemma constructed_example: "constructed example_world"
  unfolding constructed_def dom_ok_def colls_ok_def
  by (auto simp: conts_example coll_example dom_items_example distinct_example_items
       disjoint_example_items fields_example sel_example obs_example split: if_splits)

lemma constructed_inv: "constructed w \<Longrightarrow> inv w"
  unfolding constructed_def inv_def descendants_ok_def selection_ok_def arbiter_ok_def
  by (auto simp: neq_Nil_conv)

lemma inv_example: "inv example_world"
  by (rule constructed_inv [OF constructed_example])

lemma constructed_disabled_update: "constructed w \<Longrightarrow> constructed (w\<lparr>aria_disabled := f\<rparr>)"
  by (simp add: constructed_def dom_ok_def colls_ok_def members_updates)

lemma constructed_disabled: "constructed disabled_world"
  unfolding disabled_world_def by (rule constructed_disabled_update [OF constructed_example])

lemma inv_disabled: "inv disabled_world"
  by (rule constructed_inv [OF constructed_disabled])



lemma inv_selected_world: "inv selected_world"
  unfolding selected_world_def
  using doSelectionThing_exclusive [of example_world 1 0 11 0, OF inv_example]
  by (auto simp: conts_example dom_items_example example_items_def sel_example)

lemma inv_held_world: "inv held_world"
  unfolding held_world_def
  using doSelectionThing_exclusive [of example_world 3 1 30 0, OF inv_example]
  by (auto simp: conts_example dom_items_example example_items_def sel_example)

lemma inv_selected_disabled_world: "inv selected_disabled_world"
  unfolding selected_disabled_world_def
  using doSelectionThing_exclusive [of disabled_world 1 0 11 0, OF inv_disabled]
  by (auto simp: disabled_world_def conts_example dom_items_example example_items_def sel_example)

lemma inv_picked_world: "inv picked_world"
proof -
  let ?w1 = "snd (doSelectionThing 0 2 22 1 example_world)"
  have a: "2 \<in> set (conts example_world 0)" "22 \<in> set (dom_items example_world 2)"
    "sel_owner (sel example_world 0) = None \<or> sel_owner (sel example_world 0) = Some 2"
    by code_simp+
  from doSelectionThing_noncontiguous [OF inv_example a] have i1: "inv ?w1" by simp
  have b: "2 \<in> set (conts ?w1 0)" "20 \<in> set (dom_items ?w1 2)"
    "sel_owner (sel ?w1 0) = None \<or> sel_owner (sel ?w1 0) = Some 2"
    by code_simp+
  from doSelectionThing_noncontiguous [OF i1 b] show ?thesis by (simp add: picked_world_def)
qed

lemma flag_node_drop_world: "inv_but_flag node_drop_world 0"
proof -
  have "1 \<in> set (conts picked_world 0)" by code_simp
  from inv_but_flag_target(1) [OF inv_picked_world this] show ?thesis
    by (simp add: node_drop_world_def)
qed

lemma flag_selection_drop_world: "inv_but_flag selection_drop_world 0"
proof -
  have "1 \<in> set (conts picked_world 0)" by code_simp
  from inv_but_flag_target(2) [OF inv_picked_world this] show ?thesis
    by (simp add: selection_drop_world_def)
qed


section \<open>The claims about the selection\<close>

text \<open>
  Claim C5, as amended. An exclusive selection action (a multimode other than 1 and 2) on
  an item \<open>x\<close> of a container \<open>c\<close> of the instance, in a world that satisfies the invariant
  and whose selection, if any, is in \<open>c\<close> (as every caller ensures): it returns; when \<open>x\<close>
  is the sole selected item it leaves the selection empty; otherwise it leaves exactly \<open>x\<close>
  selected if \<open>x\<close> is not disabled, and it leaves the selection empty if \<open>x\<close> is disabled.
\<close>

theorem exclusive_selection_toggles:
  assumes "inv w" and "c \<in> set (conts w i)" and "x \<in> set (dom_items w c)"
    and "sel_owner (sel w i) = None \<or> sel_owner (sel w i) = Some c"
    and "m \<noteq> 1" and "m \<noteq> 2"
  shows "fst (doSelectionThing i c x m w) = Returns () \<and>
     sel_dragitems (sel (snd (doSelectionThing i c x m w)) i) =
       (if sel_dragitems (sel w i) = [x] \<or> aria_disabled w x then [] else [x]) \<and>
     sel_owner (sel (snd (doSelectionThing i c x m w)) i) =
       (if sel_dragitems (sel w i) = [x] \<or> aria_disabled w x then None else Some c)"
  using doSelectionThing_exclusive [OF assms] by auto

theorem exclusive_selection_toggles_witness:
  "inv selected_world \<and> 1 \<in> set (conts selected_world 0) \<and>
   10 \<in> set (dom_items selected_world 1) \<and> 11 \<in> set (dom_items selected_world 1) \<and>
   (sel_owner (sel selected_world 0) = None \<or> sel_owner (sel selected_world 0) = Some 1) \<and>
   (0 :: int) \<noteq> 1 \<and> (0 :: int) \<noteq> 2 \<and>
   sel_dragitems (sel selected_world 0) = [11] \<and>
   fst (doSelectionThing 0 1 10 0 selected_world) = Returns () \<and>
   sel_dragitems (sel (snd (doSelectionThing 0 1 10 0 selected_world)) 0) = [10] \<and>
   fst (doSelectionThing 0 1 11 0 selected_world) = Returns () \<and>
   sel_dragitems (sel (snd (doSelectionThing 0 1 11 0 selected_world)) 0) = []"
proof -
  have c: "1 \<in> set (conts selected_world 0)" by code_simp
  have x: "10 \<in> set (dom_items selected_world 1)" "11 \<in> set (dom_items selected_world 1)"
    by code_simp+
  have owner: "sel_owner (sel selected_world 0) = None \<or> sel_owner (sel selected_world 0) = Some 1"
    by code_simp
  have items: "sel_dragitems (sel selected_world 0) = [11]" by code_simp
  have en: "\<not> aria_disabled selected_world 10" "\<not> aria_disabled selected_world 11"
    by code_simp+
  from exclusive_selection_toggles [OF inv_selected_world c x(1) owner, of 0]
    exclusive_selection_toggles [OF inv_selected_world c x(2) owner, of 0]
  show ?thesis using inv_selected_world c x owner items en by simp
qed

text \<open>
  Claim C5 as stated fails for a disabled item: with the item 11 selected, an exclusive
  selection action on the disabled item 13 of the same container leaves the selection
  empty, not the item 13 selected.
\<close>

theorem exclusive_selection_disabled_counterexample:
  "inv selected_disabled_world \<and> 1 \<in> set (conts selected_disabled_world 0) \<and>
   13 \<in> set (dom_items selected_disabled_world 1) \<and>
   sel_owner (sel selected_disabled_world 0) = Some 1 \<and>
   sel_dragitems (sel selected_disabled_world 0) = [11] \<and>
   fst (doSelectionThing 0 1 13 0 selected_disabled_world) = Returns () \<and>
   sel_dragitems (sel (snd (doSelectionThing 0 1 13 0 selected_disabled_world)) 0) = []"
proof -
  have "1 \<in> set (conts selected_disabled_world 0) \<and>
   13 \<in> set (dom_items selected_disabled_world 1) \<and>
   sel_owner (sel selected_disabled_world 0) = Some 1 \<and>
   sel_dragitems (sel selected_disabled_world 0) = [11] \<and>
   fst (doSelectionThing 0 1 13 0 selected_disabled_world) = Returns () \<and>
   sel_dragitems (sel (snd (doSelectionThing 0 1 13 0 selected_disabled_world)) 0) = []"
    by code_simp
  with inv_selected_disabled_world show ?thesis by simp
qed



text \<open>
  Claim C6. In a world that satisfies the invariant let the instance \<open>a\<close> be the dragging
  instance, and let another instance \<open>b\<close> add an item \<open>x\<close> of one of its containers that is
  not disabled. Then \<open>#addSelection\<close> returns; it reaches a world \<open>w5\<close> in which \<open>x\<close> is
  pushed while \<open>a\<close> still is the dragging instance with its selection; from there the
  eviction returns a world \<open>w6\<close> in which the selection of \<open>a\<close> is empty, without an
  owner, and \<open>#draginstance\<close> is \<open>null\<close> (the release by \<open>a\<close>); and the result is \<open>w6\<close> with
  \<open>#draginstance\<close> set to \<open>b\<close>: afterwards \<open>b\<close> is the dragging instance with \<open>x\<close> selected
  and the selection of \<open>a\<close> is empty.
\<close>

theorem arbiter_eviction:
  assumes "inv w" and "draginstance w = Some a" and "a \<noteq> b"
    and "c \<in> set (conts w b)" and "x \<in> set (dom_items w c)" and "\<not> aria_disabled w x"
  shows "\<exists>w5 w6. evict b w5 = (Returns (), w6) \<and>
     draginstance w5 = Some a \<and> sel w5 a = sel w a \<and> sel_dragitems (sel w a) \<noteq> [] \<and>
     sel_dragitems (sel w5 b) = [x] \<and>
     draginstance w6 = None \<and> sel_dragitems (sel w6 a) = [] \<and> sel_owner (sel w6 a) = None \<and>
     addSelection b x c w = (Returns (), w6\<lparr>draginstance := Some b\<rparr>) \<and>
     draginstance (snd (addSelection b x c w)) = Some b \<and>
     sel_dragitems (sel (snd (addSelection b x c w)) a) = [] \<and>
     sel_owner (sel (snd (addSelection b x c w)) a) = None \<and>
     sel_dragitems (sel (snd (addSelection b x c w)) b) = [x]"
proof -
  from inv_holder_items [OF assms(1,2)] have held: "sel_dragitems (sel w a) \<noteq> []" .
  have empty: "sel_dragitems (sel w b) = []"
  proof (rule ccontr)
    assume "sel_dragitems (sel w b) \<noteq> []"
    with inv_selection_ok [OF assms(1), of b] have "draginstance w = Some b"
      by (simp add: selection_ok_def)
    with assms(2,3) show False by simp
  qed
  with inv_selection_ok [OF assms(1), of b] have owner: "sel_owner (sel w b) = None"
    by (simp add: selection_ok_def)
  then have "sel_owner (sel w b) = None \<or> sel_owner (sel w b) = Some c" by simp
  from inv_adding [OF assms(1,4) this] have add: "adding_ok w b c" .
  from addSelection_evicts [OF inv_others [OF assms(1)] add assms(5,6)] obtain w5 w6 where
    e: "addSelection b x c w = (Returns (), w6\<lparr>draginstance := Some b\<rparr>)"
      "evict b w5 = (Returns (), w6)" "draginstance w5 = draginstance w"
      "\<forall>j. j \<noteq> b \<longrightarrow> sel w5 j = sel w j"
      "sel_dragitems (sel w5 b) = sel_dragitems (sel w b) @ [x]"
      "sel w6 b = sel w5 b"
      "draginstance w6 = (if draginstance w = Some b then Some b else None)"
      "\<forall>j. j \<noteq> b \<longrightarrow> selection_ok w6 j \<and> sel_dragitems (sel w6 j) = []"
    by blast
  from e(8) assms(3) have a6: "selection_ok w6 a" "sel_dragitems (sel w6 a) = []" by auto
  then have o6: "sel_owner (sel w6 a) = None" by (simp add: selection_ok_def)
  from e(7) assms(2,3) have d6: "draginstance w6 = None" by simp
  from e(4) assms(3) have s5: "sel w5 a = sel w a" by simp
  have res: "snd (addSelection b x c w) = w6\<lparr>draginstance := Some b\<rparr>" by (simp add: e(1))
  show ?thesis
    apply (rule exI [of _ w5])
    apply (rule exI [of _ w6])
    using e(1,2,3,5,6) assms(2) a6(2) o6 d6 s5 held empty
    by (simp add: res)
qed

theorem arbiter_eviction_witness:
  "inv held_world \<and> draginstance held_world = Some 1 \<and> (1 :: nat) \<noteq> 0 \<and>
   1 \<in> set (conts held_world 0) \<and> 10 \<in> set (dom_items held_world 1) \<and>
   \<not> aria_disabled held_world 10 \<and> sel_dragitems (sel held_world 1) = [30] \<and>
   fst (addSelection 0 10 1 held_world) = Returns () \<and>
   draginstance (snd (addSelection 0 10 1 held_world)) = Some 0 \<and>
   sel_dragitems (sel (snd (addSelection 0 10 1 held_world)) 1) = [] \<and>
   sel_owner (sel (snd (addSelection 0 10 1 held_world)) 1) = None \<and>
   sel_dragitems (sel (snd (addSelection 0 10 1 held_world)) 0) = [10]"
proof -
  have h: "draginstance held_world = Some 1" "1 \<in> set (conts held_world 0)"
    "10 \<in> set (dom_items held_world 1)" "\<not> aria_disabled held_world 10"
    "sel_dragitems (sel held_world 1) = [30]"
    by code_simp+
  have n: "(1 :: nat) \<noteq> 0" by simp
  from arbiter_eviction [OF inv_held_world h(1) n h(2,3,4)] obtain w6 where
    "addSelection 0 10 1 held_world = (Returns (), w6\<lparr>draginstance := Some 0\<rparr>)"
    "draginstance (snd (addSelection 0 10 1 held_world)) = Some 0"
    "sel_dragitems (sel (snd (addSelection 0 10 1 held_world)) 1) = []"
    "sel_owner (sel (snd (addSelection 0 10 1 held_world)) 1) = None"
    "sel_dragitems (sel (snd (addSelection 0 10 1 held_world)) 0) = [10]"
    by blast
  with h n inv_held_world show ?thesis by simp
qed

section \<open>The claims about the drop\<close>




text \<open>
  Claim C3. In a world that satisfies the invariant but for the sorting flag, let the
  selection of the instance be \<open>C\<close>, \<open>A\<close> in this order, its owner a container with the items
  \<open>A\<close>, \<open>B\<close>, \<open>C\<close> in this order, and the pending drop target another container \<open>t\<close>. Then
  \<open>#doDropThing\<close> returns \<open>true\<close>; with the sorting flag set (node order) the items of \<open>t\<close>
  are followed by \<open>A\<close>, \<open>C\<close>; with the flag unset (selection order) they are followed by
  \<open>C\<close>, \<open>A\<close>; and the owner keeps \<open>B\<close>.
\<close>

theorem transfer_order:
  assumes "inv_but_flag w i" and "sel_dragitems (sel w i) = [C, A]"
    and "sel_owner (sel w i) = Some s" and "dom_items w s = [A, B, C]"
    and "sel_droptarget (sel w i) = Some t" and "t \<noteq> s"
  shows "fst (doDropThing i w) = Returns True \<and>
     (sel_nodesort (sel w i) \<longrightarrow>
        dom_items (snd (doDropThing i w)) t = dom_items w t @ [A, C]) \<and>
     (\<not> sel_nodesort (sel w i) \<longrightarrow>
        dom_items (snd (doDropThing i w)) t = dom_items w t @ [C, A]) \<and>
     dom_items (snd (doDropThing i w)) s = [B]"
proof -
  from inv_but_flag_facts(1) [OF assms(1)] have dom: "dom_ok w" by (simp add: others_ok_def)
  then have "distinct (dom_items w s)" by (simp add: dom_ok_def)
  with assms(4) have dist: "A \<noteq> B" "A \<noteq> C" "B \<noteq> C" by auto
  from dom assms(6) have "set (dom_items w t) \<inter> set (dom_items w s) = {}"
    unfolding dom_ok_def by blast
  with assms(4) have "A \<notin> set (dom_items w t)" "C \<notin> set (dom_items w t)" by auto
  then have keep: "filter (\<lambda>y. y \<notin> set [C, A]) (dom_items w t) = dom_items w t"
    by (auto simp: filter_id_conv)
  from doDropThing_flagged [OF assms(1,5,3)] obtain w' where
    w': "doDropThing i w = (Returns True, w')"
      "dom_items w' =
       (\<lambda>c. if c = t
            then filter (\<lambda>y. y \<notin> set (sel_dragitems (sel w i))) (dom_items w c) @
                 (if sel_nodesort (sel w i)
                  then filter (\<lambda>x. x \<in> set (sel_dragitems (sel w i))) (dom_items w s)
                  else sel_dragitems (sel w i))
            else filter (\<lambda>y. y \<notin> set (sel_dragitems (sel w i))) (dom_items w c))"
    by blast
  have t: "dom_items w' t = dom_items w t @
                 (if sel_nodesort (sel w i) then filter (\<lambda>x. x \<in> set [C, A]) [A, B, C] else [C, A])"
    by (simp only: w'(2) assms(2,4) keep refl if_True)
  have s: "dom_items w' s = filter (\<lambda>y. y \<notin> set [C, A]) [A, B, C]"
    using assms(6) by (simp only: w'(2) assms(2,4)) simp
  from t s dist w'(1) show ?thesis by auto
qed

theorem transfer_order_witness:
  "inv_but_flag node_drop_world 0 \<and> inv_but_flag selection_drop_world 0 \<and>
   sel_dragitems (sel node_drop_world 0) = [22, 20] \<and>
   sel_dragitems (sel selection_drop_world 0) = [22, 20] \<and>
   sel_owner (sel node_drop_world 0) = Some 2 \<and> sel_owner (sel selection_drop_world 0) = Some 2 \<and>
   dom_items node_drop_world 2 = [20, 21, 22] \<and> dom_items selection_drop_world 2 = [20, 21, 22] \<and>
   sel_droptarget (sel node_drop_world 0) = Some 1 \<and>
   sel_droptarget (sel selection_drop_world 0) = Some 1 \<and> (1 :: nat) \<noteq> 2 \<and>
   sel_nodesort (sel node_drop_world 0) \<and> \<not> sel_nodesort (sel selection_drop_world 0) \<and>
   dom_items (snd (doDropThing 0 node_drop_world)) 1 = [10, 11, 12, 13, 20, 22] \<and>
   dom_items (snd (doDropThing 0 selection_drop_world)) 1 = [10, 11, 12, 13, 22, 20] \<and>
   dom_items (snd (doDropThing 0 node_drop_world)) 2 = [21] \<and>
   dom_items (snd (doDropThing 0 selection_drop_world)) 2 = [21]"
proof -
  have n: "sel_dragitems (sel node_drop_world 0) = [22, 20]"
    "sel_owner (sel node_drop_world 0) = Some 2" "dom_items node_drop_world 2 = [20, 21, 22]"
    "sel_droptarget (sel node_drop_world 0) = Some 1" "sel_nodesort (sel node_drop_world 0)"
    "dom_items node_drop_world 1 = [10, 11, 12, 13]"
    by code_simp+
  have m: "sel_dragitems (sel selection_drop_world 0) = [22, 20]"
    "sel_owner (sel selection_drop_world 0) = Some 2"
    "dom_items selection_drop_world 2 = [20, 21, 22]"
    "sel_droptarget (sel selection_drop_world 0) = Some 1"
    "\<not> sel_nodesort (sel selection_drop_world 0)"
    "dom_items selection_drop_world 1 = [10, 11, 12, 13]"
    by code_simp+
  have d: "(1 :: nat) \<noteq> 2" by simp
  from transfer_order [OF flag_node_drop_world n(1,2,3,4) d] n(5,6)
  have a: "dom_items (snd (doDropThing 0 node_drop_world)) 1 = [10, 11, 12, 13, 20, 22] \<and>
           dom_items (snd (doDropThing 0 node_drop_world)) 2 = [21]" by simp
  from transfer_order [OF flag_selection_drop_world m(1,2,3,4) d] m(5,6)
  have b: "dom_items (snd (doDropThing 0 selection_drop_world)) 1 = [10, 11, 12, 13, 22, 20] \<and>
           dom_items (snd (doDropThing 0 selection_drop_world)) 2 = [21]" by simp
  from a b n m d flag_node_drop_world flag_selection_drop_world show ?thesis by simp
qed

end
